theory Spec2Isabelle
  imports Complex_Main
begin

section \<open>Python values used by lyricsx\<close>

text \<open>
  A Python \<^verbatim>\<open>str\<close> is a sequence of Unicode code points; it is modelled as a list of
  natural numbers. \<open>ascii\<close> turns an Isabelle string literal into such a list, so that
  \<open>ascii ''[00:12.34]''\<close> is the Python literal \<^verbatim>\<open>"[00:12.34]"\<close>.
\<close>

type_synonym pystr = "nat list"

definition ascii :: "string \<Rightarrow> pystr" where
  "ascii s = map of_char s"

text \<open>The exceptions that the modelled code can raise.\<close>

datatype error = TypeError | ValueError | OverflowError | IndexError

subsection \<open>Character classes of the Unicode database\<close>

text \<open>
  \<^verbatim>\<open>\d\<close> in a \<^verbatim>\<open>str\<close> pattern and \<^verbatim>\<open>int()\<close> accept every character of category Nd.
  These characters come in blocks of ten consecutive code points carrying the values
  0 to 9; \<open>decimal_zeros\<close> lists the first code point of every block (Unicode 14.0, the
  database of CPython 3.11).
\<close>

definition decimal_zeros :: "nat list" where
  "decimal_zeros =
    [48, 1632, 1776, 1984, 2406, 2534, 2662, 2790, 2918,
     3046, 3174, 3302, 3430, 3558, 3664, 3792, 3872, 4160,
     4240, 6112, 6160, 6470, 6608, 6784, 6800, 6992, 7088,
     7232, 7248, 42528, 43216, 43264, 43472, 43504, 43600, 44016,
     65296, 66720, 68912, 69734, 69872, 69942, 70096, 70384, 70736,
     70864, 71248, 71360, 71472, 71904, 72016, 72784, 73040, 73120,
     92768, 92864, 93008, 120782, 120792, 120802, 120812, 120822, 123200,
     123632, 125264, 130032]"

definition decimal_value :: "nat \<Rightarrow> nat option" where
  "decimal_value c =
     (case find (\<lambda>z. z \<le> c \<and> c < z + 10) decimal_zeros of
        None \<Rightarrow> None
      | Some z \<Rightarrow> Some (c - z))"

definition isdecimal :: "nat \<Rightarrow> bool" where
  "isdecimal c = (decimal_value c \<noteq> None)"

text \<open>
  \<^verbatim>\<open>str.isdigit\<close> also accepts the characters of numeric type Digit that are not
  decimal (superscripts, circled digits and the like), listed here as closed ranges.
\<close>

definition digit_ranges :: "(nat \<times> nat) list" where
  "digit_ranges =
    [(178, 179), (185, 185), (4969, 4977), (6618, 6618), (8304, 8304),
     (8308, 8313), (8320, 8329), (9312, 9320), (9332, 9340), (9352, 9360),
     (9450, 9450), (9461, 9469), (9471, 9471), (10102, 10110), (10112, 10120),
     (10122, 10130), (68160, 68163), (69216, 69224), (69714, 69722),
     (127232, 127242)]"

definition isdigit_char :: "nat \<Rightarrow> bool" where
  "isdigit_char c = (isdecimal c \<or> list_ex (\<lambda>(a, b). a \<le> c \<and> c \<le> b) digit_ranges)"

text \<open>\<^verbatim>\<open>s.isdigit()\<close>: false on the empty string.\<close>

definition isdigit :: "pystr \<Rightarrow> bool" where
  "isdigit s = (s \<noteq> [] \<and> list_all isdigit_char s)"

subsection \<open>Integers and text\<close>

text \<open>
  \<^verbatim>\<open>int(s)\<close> on a string that has passed \<^verbatim>\<open>isdigit\<close> (its only use here), so that no
  sign, blank or underscore occurs: every character must be a decimal digit, and CPython
  refuses more than \<^verbatim>\<open>sys.int_info.default_max_str_digits\<close> digits. Both failures are
  \<^verbatim>\<open>ValueError\<close>.
\<close>

definition int_max_str_digits :: nat where
  "int_max_str_digits = 4300"

fun int_of_digits :: "int \<Rightarrow> pystr \<Rightarrow> int option" where
  "int_of_digits acc [] = Some acc"
| "int_of_digits acc (c # cs) =
     (case decimal_value c of
        None \<Rightarrow> None
      | Some d \<Rightarrow> int_of_digits (10 * acc + int d) cs)"

definition py_int :: "pystr \<Rightarrow> error + int" where
  "py_int s =
     (if s = [] \<or> int_max_str_digits < length s then Inl ValueError
      else case int_of_digits 0 s of
             None \<Rightarrow> Inl ValueError
           | Some n \<Rightarrow> Inr n)"

text \<open>\<^verbatim>\<open>s.ljust(n, c)\<close> and its mirror image, used by the format specifications.\<close>

definition ljust :: "pystr \<Rightarrow> nat \<Rightarrow> nat \<Rightarrow> pystr" where
  "ljust s n c = s @ replicate (n - length s) c"

definition rjust :: "pystr \<Rightarrow> nat \<Rightarrow> nat \<Rightarrow> pystr" where
  "rjust s n c = replicate (n - length s) c @ s"

text \<open>The decimal digits of a non-negative integer.\<close>

function digits :: "int \<Rightarrow> pystr" where
  "digits n = (if n < 10 then [nat (48 + n)] else digits (n div 10) @ [nat (48 + n mod 10)])"
  by pat_completeness auto
termination
  by (relation "measure nat") auto

declare digits.simps [simp del]

text \<open>
  \<^verbatim>\<open>f"{n:0wd}"\<close>: the sign, then the digits padded with zeros to the width \<open>w\<close>. The
  conversion of an integer of more than \<open>int_max_str_digits\<close> digits raises
  \<^verbatim>\<open>ValueError\<close>.
\<close>

definition format_d :: "nat \<Rightarrow> int \<Rightarrow> error + pystr" where
  "format_d w n =
     (let ds = digits \<bar>n\<bar>
      in if int_max_str_digits < length ds then Inl ValueError
         else if n < 0 then Inr (45 # rjust ds (w - 1) 48)
         else Inr (rjust ds w 48))"

subsection \<open>Binary floating point\<close>

text \<open>
  A finite double is a rational number. \<open>fl\<close> rounds a rational to the nearest double
  with a 53-bit significand, ties to even, as every IEEE 754 operation does with its exact
  result. The operands met here lie between \<open>10\<^sup>-\<^sup>3\<close> and \<open>10\<^sup>1\<^sup>7\<close>, far from overflow and
  from the subnormal range, which are left out.
\<close>

function bit_length :: "int \<Rightarrow> int" where
  "bit_length n = (if n \<le> 0 then 0 else 1 + bit_length (n div 2))"
  by pat_completeness auto
termination
  by (relation "measure nat") auto

declare bit_length.simps [simp del]

text \<open>\<open>ilog2 x\<close> is the integer \<open>e\<close> with \<open>2\<^sup>e \<le> x < 2\<^sup>e\<^sup>+\<^sup>1\<close>, for positive \<open>x\<close>.\<close>

definition ilog2 :: "rat \<Rightarrow> int" where
  "ilog2 x =
     (let (p, q) = quotient_of x;
          d = bit_length p - bit_length q
      in if 2 powi d \<le> x then d else d - 1)"

text \<open>Rounding to the nearest integer, ties to even: also Python's \<^verbatim>\<open>round(x)\<close>.\<close>

definition round_half_even :: "rat \<Rightarrow> int" where
  "round_half_even x =
     (let f = \<lfloor>x\<rfloor>; r = x - of_int f
      in if r < 1 / 2 then f
         else if 1 / 2 < r then f + 1
         else if even f then f else f + 1)"

definition fl :: "rat \<Rightarrow> rat" where
  "fl x =
     (if x = 0 then 0
      else let e = ilog2 \<bar>x\<bar> - 52
           in sgn x * of_int (round_half_even (\<bar>x\<bar> / 2 powi e)) * 2 powi e)"

subsection \<open>datetime.timedelta\<close>

text \<open>
  A \<^verbatim>\<open>timedelta\<close> is an exact number of microseconds. The constructor refuses a value
  whose day count has a magnitude above 999999999 with \<^verbatim>\<open>OverflowError\<close>. Equality and
  order of \<^verbatim>\<open>timedelta\<close> values are those of the microsecond counts.
\<close>

type_synonym timedelta = int

definition timedelta :: "int \<Rightarrow> int \<Rightarrow> int \<Rightarrow> error + timedelta" where
  "timedelta minutes seconds milliseconds =
     (let us = minutes * 60000000 + seconds * 1000000 + milliseconds * 1000;
          days = us div 86400000000
      in if 999999999 < \<bar>days\<bar> then Inl OverflowError else Inr us)"

text \<open>\<^verbatim>\<open>td.total_seconds()\<close> is the true division of two integers, hence one rounding.\<close>

definition total_seconds :: "timedelta \<Rightarrow> rat" where
  "total_seconds td = fl (of_int td / 10 ^ 6)"

section \<open>model.py: LRCTime\<close>

text \<open>
  The only attribute of an \<^verbatim>\<open>LRCTime\<close> is \<^verbatim>\<open>self.time\<close>, a \<^verbatim>\<open>timedelta\<close>; it is the
  field \<open>tdelta\<close> here, since \<open>time\<close> is also an attribute of the line classes.
\<close>

record LRCTime =
  tdelta :: timedelta

text \<open>
  \<^verbatim>\<open>LRCTime.__init__\<close>. The parameters are strings by their type, which leaves the
  \<^verbatim>\<open>TypeError\<close> branch without an input. Any \<^verbatim>\<open>ValueError\<close> of the conversions is
  raised again as \<^verbatim>\<open>ValueError\<close>.
\<close>

definition LRCTime_init :: "pystr \<Rightarrow> pystr \<Rightarrow> pystr \<Rightarrow> error + LRCTime" where
  "LRCTime_init minutes seconds milliseconds =
     (if \<not> (isdigit minutes \<and> isdigit seconds \<and> isdigit milliseconds) then Inl ValueError
      else case py_int minutes of
        Inl e \<Rightarrow> Inl ValueError
      | Inr min_val \<Rightarrow>
      (case py_int seconds of
        Inl e \<Rightarrow> Inl ValueError
      | Inr sec_val \<Rightarrow>
      (case py_int (ljust milliseconds 3 48) of
        Inl e \<Rightarrow> Inl ValueError
      | Inr ms_val \<Rightarrow>
         if min_val < 0 then Inl ValueError
         else if \<not> (0 \<le> sec_val \<and> sec_val \<le> 59) then Inl ValueError
         else if \<not> (0 \<le> ms_val \<and> ms_val \<le> 999) then Inl ValueError
         else (case timedelta min_val sec_val ms_val of
                 Inl e \<Rightarrow> Inl e
               | Inr td \<Rightarrow> Inr \<lparr>tdelta = td\<rparr>))))"

text \<open>\<^verbatim>\<open>round(self.time.total_seconds() * 1000)\<close>: a second rounding, then \<^verbatim>\<open>round\<close>.\<close>

definition total_milliseconds :: "LRCTime \<Rightarrow> int" where
  "total_milliseconds t = round_half_even (fl (total_seconds (tdelta t) * 1000))"

definition milliseconds :: "LRCTime \<Rightarrow> int" where
  "milliseconds t = total_milliseconds t mod 1000"

definition seconds :: "LRCTime \<Rightarrow> int" where
  "seconds t = (total_milliseconds t div 1000) mod 60"

definition minutes :: "LRCTime \<Rightarrow> int" where
  "minutes t = total_milliseconds t div 60000"

definition from_total_milliseconds :: "int \<Rightarrow> error + LRCTime" where
  "from_total_milliseconds ms =
     (let minutes = ms div 60000;
          seconds = (ms mod 60000) div 1000;
          milliseconds_val = ms mod 1000
      in case format_d 2 minutes of
           Inl e \<Rightarrow> Inl e
         | Inr a \<Rightarrow>
         (case format_d 2 seconds of
           Inl e \<Rightarrow> Inl e
         | Inr b \<Rightarrow>
         (case format_d 3 milliseconds_val of
           Inl e \<Rightarrow> Inl e
         | Inr c \<Rightarrow> LRCTime_init a b c)))"

text \<open>\<^verbatim>\<open>LRCTime.__eq__\<close> and \<^verbatim>\<open>LRCTime.__lt__\<close> compare the \<^verbatim>\<open>timedelta\<close> values.\<close>

definition LRCTime_eq :: "LRCTime \<Rightarrow> LRCTime \<Rightarrow> bool" where
  "LRCTime_eq a b = (tdelta a = tdelta b)"

definition LRCTime_lt :: "LRCTime \<Rightarrow> LRCTime \<Rightarrow> bool" where
  "LRCTime_lt a b = (tdelta a < tdelta b)"

text \<open>
  Two notions used to state what the constructor accepts: a string that \<^verbatim>\<open>isdigit\<close> and
  \<^verbatim>\<open>int\<close> both let through, and the number it denotes.
\<close>

definition decimal_string :: "pystr \<Rightarrow> bool" where
  "decimal_string s = (s \<noteq> [] \<and> length s \<le> int_max_str_digits \<and> list_all isdecimal s)"

definition str_value :: "pystr \<Rightarrow> int" where
  "str_value s = (case int_of_digits 0 s of Some n \<Rightarrow> n | None \<Rightarrow> 0)"

text \<open>\<^verbatim>\<open>LRCTime.__str__\<close>: \<^verbatim>\<open>f"{self.minutes:02}:{self.seconds:02}.{self.milliseconds:03}"\<close>.\<close>

definition LRCTime_str :: "LRCTime \<Rightarrow> error + pystr" where
  "LRCTime_str t =
     (case format_d 2 (minutes t) of
        Inl e \<Rightarrow> Inl e
      | Inr a \<Rightarrow>
     (case format_d 2 (seconds t) of
        Inl e \<Rightarrow> Inl e
      | Inr b \<Rightarrow>
     (case format_d 3 (milliseconds t) of
        Inl e \<Rightarrow> Inl e
      | Inr c \<Rightarrow> Inr (a @ [58] @ b @ [46] @ c))))"

section \<open>model.py: lines and documents\<close>

text \<open>Running a failing function over a list stops at the first exception.\<close>

fun map_err :: "('a \<Rightarrow> error + 'b) \<Rightarrow> 'a list \<Rightarrow> error + 'b list" where
  "map_err f [] = Inr []"
| "map_err f (x # xs) =
     (case f x of
        Inl e \<Rightarrow> Inl e
      | Inr y \<Rightarrow> (case map_err f xs of Inl e \<Rightarrow> Inl e | Inr ys \<Rightarrow> Inr (y # ys)))"

text \<open>\<^verbatim>\<open>sep.join(parts)\<close>.\<close>

fun join :: "pystr \<Rightarrow> pystr list \<Rightarrow> pystr" where
  "join sep [] = []"
| "join sep [x] = x"
| "join sep (x # y # ys) = x @ sep @ join sep (y # ys)"

text \<open>
  \<^verbatim>\<open>list.sort()\<close> is stable and compares with \<^verbatim>\<open>__lt__\<close> only. The orders sorted here
  compare a key, and for such an order the result of a stable sort is determined: each
  element stands after the elements that are not greater and were before it.
\<close>

fun insort_lt :: "('a \<Rightarrow> 'a \<Rightarrow> bool) \<Rightarrow> 'a \<Rightarrow> 'a list \<Rightarrow> 'a list" where
  "insort_lt lt x [] = [x]"
| "insort_lt lt x (y # ys) = (if lt y x then y # insort_lt lt x ys else x # y # ys)"

definition list_sort :: "('a \<Rightarrow> 'a \<Rightarrow> bool) \<Rightarrow> 'a list \<Rightarrow> 'a list" where
  "list_sort lt xs = foldr (insort_lt lt) xs []"

record LyricLine =
  time :: LRCTime
  texts :: pystr

definition LyricLine_str :: "LyricLine \<Rightarrow> error + pystr" where
  "LyricLine_str l =
     (case LRCTime_str (time l) of
        Inl e \<Rightarrow> Inl e
      | Inr t \<Rightarrow> Inr ([91] @ t @ [93] @ texts l))"

definition LyricLine_lt :: "LyricLine \<Rightarrow> LyricLine \<Rightarrow> bool" where
  "LyricLine_lt a b = LRCTime_lt (time a) (time b)"

definition LyricLine_eq :: "LyricLine \<Rightarrow> LyricLine \<Rightarrow> bool" where
  "LyricLine_eq a b = LRCTime_eq (time a) (time b)"

text \<open>\<^verbatim>\<open>LyricLine.empty_line()\<close>.\<close>

definition empty_line :: "error + LyricLine" where
  "empty_line =
     (case LRCTime_init [48, 48] [48, 48] [48, 48, 48] of
        Inl e \<Rightarrow> Inl e
      | Inr t \<Rightarrow> Inr \<lparr>time = t, texts = []\<rparr>)"

text \<open>
  \<^verbatim>\<open>CombinedLyricLine\<close>: the attribute \<^verbatim>\<open>time\<close> is the field \<open>ctime\<close>. As values, the
  deep copy of a translation followed by the assignment to its \<^verbatim>\<open>time\<close> is a record
  update; the objects themselves are followed in the section on the store below.
\<close>

record CombinedLyricLine =
  origin :: LyricLine
  ctime :: LRCTime
  trans :: "LyricLine list"

definition CombinedLyricLine_init :: "LyricLine \<Rightarrow> LyricLine list \<Rightarrow> CombinedLyricLine" where
  "CombinedLyricLine_init orig ts =
     \<lparr>origin = orig, ctime = time orig, trans = map (\<lambda>t. t\<lparr>time := time orig\<rparr>) ts\<rparr>"

definition CombinedLyricLine_str :: "CombinedLyricLine \<Rightarrow> error + pystr" where
  "CombinedLyricLine_str c =
     (if texts (origin c) = [] then
        (case LRCTime_str (ctime c) of
           Inl e \<Rightarrow> Inl e
         | Inr t \<Rightarrow> Inr ([91] @ t @ [93] @ texts (origin c)))
      else
        (case LyricLine_str (origin c) of
           Inl e \<Rightarrow> Inl e
         | Inr s \<Rightarrow>
        (case map_err LyricLine_str (filter (\<lambda>t. texts t \<noteq> []) (trans c)) of
           Inl e \<Rightarrow> Inl e
         | Inr ss \<Rightarrow> Inr (join [10] (s # ss)))))"

definition CombinedLyricLine_lt :: "CombinedLyricLine \<Rightarrow> CombinedLyricLine \<Rightarrow> bool" where
  "CombinedLyricLine_lt a b = LRCTime_lt (ctime a) (ctime b)"

record LyricMeta =
  tag :: pystr
  meta_value :: pystr

definition LyricMeta_init :: "pystr \<Rightarrow> pystr \<Rightarrow> error + LyricMeta" where
  "LyricMeta_init t v =
     (if t = [] \<or> v = [] then Inl ValueError else Inr \<lparr>tag = t, meta_value = v\<rparr>)"

text \<open>
  \<^verbatim>\<open>StandardLyricDocument\<close>. Every document built by the code holds lines of one class,
  which is the type parameter.
\<close>

record 'l StandardLyricDocument =
  lines :: "'l list"
  meta :: "LyricMeta list"

section \<open>parser/lrc\_parser.py: StandardLRCParser\<close>

subsection \<open>Lines and blanks\<close>

text \<open>The characters at which \<^verbatim>\<open>str.splitlines\<close> breaks, besides the pair CR LF.\<close>

definition is_linebreak :: "nat \<Rightarrow> bool" where
  "is_linebreak c = (c \<in> set [10, 11, 12, 13, 28, 29, 30, 133, 8232, 8233])"

fun splitlines_from :: "pystr \<Rightarrow> pystr \<Rightarrow> pystr list" where
  "splitlines_from cur [] = (if cur = [] then [] else [cur])"
| "splitlines_from cur (c # cs) =
     (if c = 13 then
        (case cs of
           [] \<Rightarrow> [cur]
         | d # ds \<Rightarrow> if d = 10 then cur # splitlines_from [] ds
                     else cur # splitlines_from [] (d # ds))
      else if is_linebreak c then cur # splitlines_from [] cs
      else splitlines_from (cur @ [c]) cs)"

definition splitlines :: "pystr \<Rightarrow> pystr list" where
  "splitlines s = splitlines_from [] s"

text \<open>The characters for which \<^verbatim>\<open>str.isspace\<close> holds; \<^verbatim>\<open>str.strip\<close> removes them.\<close>

definition space_ranges :: "(nat \<times> nat) list" where
  "space_ranges =
    [(9, 13), (28, 32), (133, 133), (160, 160), (5760, 5760), (8192, 8202),
     (8232, 8233), (8239, 8239), (8287, 8287), (12288, 12288)]"

definition isspace :: "nat \<Rightarrow> bool" where
  "isspace c = list_ex (\<lambda>(a, b). a \<le> c \<and> c \<le> b) space_ranges"

definition strip :: "pystr \<Rightarrow> pystr" where
  "strip s = rev (dropWhile isspace (rev (dropWhile isspace s)))"

subsection \<open>The two patterns\<close>

definition is_ascii_letter :: "nat \<Rightarrow> bool" where
  "is_ascii_letter c = ((65 \<le> c \<and> c \<le> 90) \<or> (97 \<le> c \<and> c \<le> 122))"

text \<open>
  \<^verbatim>\<open>re.match(r"\[([a-zA-Z]{2,3}):([^]]+)]", line)\<close>, anchored at the start of the line:
  the two groups of the match. Three letters are tried before two, and the value runs to
  the first closing bracket.
\<close>

definition tag_match :: "pystr \<Rightarrow> (pystr \<times> pystr) option" where
  "tag_match line =
     (case line of
        [] \<Rightarrow> None
      | c # r \<Rightarrow>
          if c \<noteq> 91 then None
          else let k = length (takeWhile is_ascii_letter r); n = min k 3
               in if k < 2 then None
                  else (case drop n r of
                          [] \<Rightarrow> None
                        | d # v \<Rightarrow>
                            if d \<noteq> 58 then None
                            else let val = takeWhile (\<lambda>x. x \<noteq> 93) v
                                 in if val = [] then None
                                    else (case drop (length val) v of
                                            [] \<Rightarrow> None
                                          | _ # _ \<Rightarrow> Some (take n r, val))))"

text \<open>
  The common head of the two timed patterns, \<^verbatim>\<open>\[(\d{2}):(\d{2})\.(\d{1,3})]\<close>, matched
  at the start of \<open>s\<close>: the three groups and what follows the closing bracket. One to three
  digits must be followed by the bracket at once, so a fourth digit makes the match fail.
\<close>

definition time_match_at :: "pystr \<Rightarrow> (pystr \<times> pystr \<times> pystr \<times> pystr) option" where
  "time_match_at s =
     (case s of
        c0 # a # b # c1 # c # d # c2 # r \<Rightarrow>
          if c0 = 91 \<and> isdecimal a \<and> isdecimal b \<and> c1 = 58
             \<and> isdecimal c \<and> isdecimal d \<and> c2 = 46
          then let ms = takeWhile isdecimal r; n = length ms
               in if 1 \<le> n \<and> n \<le> 3
                  then (case drop n r of
                          [] \<Rightarrow> None
                        | e # rest \<Rightarrow> if e = 93 then Some ([a, b], [c, d], ms, rest) else None)
                  else None
          else None
      | _ \<Rightarrow> None)"

text \<open>
  \<^verbatim>\<open>re.findall(r"\[(\d{2}):(\d{2})\.(\d{1,3})](.*)", line)[0]\<close>: the leftmost place of the
  line where the pattern matches, and \<open>None\<close> for the \<^verbatim>\<open>IndexError\<close> of an empty list. The
  last group stops at a newline.
\<close>

fun find_time :: "pystr \<Rightarrow> (pystr \<times> pystr \<times> pystr \<times> pystr) option" where
  "find_time [] = None"
| "find_time (c # cs) =
     (case time_match_at (c # cs) of
        Some (m, s, f, rest) \<Rightarrow> Some (m, s, f, takeWhile (\<lambda>x. x \<noteq> 10) rest)
      | None \<Rightarrow> find_time cs)"

subsection \<open>parse\<close>

text \<open>
  One turn of the loop of \<^verbatim>\<open>StandardLRCParser.parse\<close> on the lists \<^verbatim>\<open>lines\<close> and
  \<^verbatim>\<open>meta\<close>. The exceptions of the two constructors are not caught and end the parse.
\<close>

definition parse_line ::
  "pystr \<Rightarrow> LyricLine list \<times> LyricMeta list \<Rightarrow> error + (LyricLine list \<times> LyricMeta list)" where
  "parse_line raw acc =
     (let line = strip raw
      in case tag_match line of
           Some (t, v) \<Rightarrow>
             (case LyricMeta_init t v of
                Inl e \<Rightarrow> Inl e
              | Inr m \<Rightarrow> Inr (fst acc, snd acc @ [m]))
         | None \<Rightarrow>
             (case find_time line of
                None \<Rightarrow> Inr acc
              | Some (minute, sec, msec, text) \<Rightarrow>
                  (case LRCTime_init minute sec (ljust msec 3 48) of
                     Inl e \<Rightarrow> Inl e
                   | Inr lrc_time \<Rightarrow>
                       Inr (fst acc @ [\<lparr>time = lrc_time, texts = text\<rparr>], snd acc))))"

fun parse_lines ::
  "pystr list \<Rightarrow> LyricLine list \<times> LyricMeta list \<Rightarrow> error + (LyricLine list \<times> LyricMeta list)" where
  "parse_lines [] acc = Inr acc"
| "parse_lines (l # ls) acc =
     (case parse_line l acc of
        Inl e \<Rightarrow> Inl e
      | Inr acc' \<Rightarrow> parse_lines ls acc')"

definition parse :: "pystr \<Rightarrow> error + LyricLine StandardLyricDocument" where
  "parse text =
     (case parse_lines (splitlines text) ([], []) of
        Inl e \<Rightarrow> Inl e
      | Inr (ls, ms) \<Rightarrow> Inr \<lparr>lines = ls, meta = ms\<rparr>)"

subsection \<open>parse\_with\_translate\<close>

text \<open>The list comprehension \<^verbatim>\<open>available_tran\<close> for an origin line and the lines of one document.\<close>

definition available_tran :: "LyricLine \<Rightarrow> int \<Rightarrow> LyricLine list \<Rightarrow> LyricLine list" where
  "available_tran orig interval ls =
     filter (\<lambda>x. \<bar>total_milliseconds (time x) - total_milliseconds (time orig)\<bar> \<le> interval) ls"

text \<open>The inner loop: \<^verbatim>\<open>available_trans\<close> after all translation documents.\<close>

fun available_trans ::
  "LyricLine \<Rightarrow> int \<Rightarrow> LyricLine StandardLyricDocument list \<Rightarrow> LyricLine list" where
  "available_trans orig interval [] = []"
| "available_trans orig interval (t # ts) =
     (case available_tran orig interval (lines t) of
        [] \<Rightarrow> available_trans orig interval ts
      | x # _ \<Rightarrow> x # available_trans orig interval ts)"

text \<open>The body of the outer loop: the line appended to \<^verbatim>\<open>final_lines\<close>.\<close>

definition merge_line ::
  "LyricLine \<Rightarrow> int \<Rightarrow> LyricLine StandardLyricDocument list \<Rightarrow> error + CombinedLyricLine" where
  "merge_line orig interval parsed_trans =
     (let av = available_trans orig interval parsed_trans
      in if av = [] then
           (case empty_line of
              Inl e \<Rightarrow> Inl e
            | Inr e \<Rightarrow> Inr (CombinedLyricLine_init orig [e]))
         else Inr (CombinedLyricLine_init orig av))"

definition sort_lines :: "LyricLine StandardLyricDocument \<Rightarrow> LyricLine StandardLyricDocument" where
  "sort_lines d = d\<lparr>lines := list_sort LyricLine_lt (lines d)\<rparr>"

definition parse_with_translate ::
  "pystr \<Rightarrow> int \<Rightarrow> pystr list \<Rightarrow> error + CombinedLyricLine StandardLyricDocument" where
  "parse_with_translate orig interval trans_texts =
     (case parse orig of
        Inl e \<Rightarrow> Inl e
      | Inr parsed_origin \<Rightarrow>
     (case map_err parse trans_texts of
        Inl e \<Rightarrow> Inl e
      | Inr parsed_trans \<Rightarrow>
     (let sorted_origin = sort_lines parsed_origin;
          sorted_trans = map sort_lines parsed_trans
      in case map_err (\<lambda>l. merge_line l interval sorted_trans) (lines sorted_origin) of
           Inl e \<Rightarrow> Inl e
         | Inr final_lines \<Rightarrow>
             Inr \<lparr>lines = list_sort CombinedLyricLine_lt final_lines,
                  meta = meta parsed_origin\<rparr>)))"

section \<open>enhanced\_model.py\<close>

text \<open>\<^verbatim>\<open>TimedCharacter\<close>: the attribute \<^verbatim>\<open>time\<close> is the field \<open>ch_time\<close>.\<close>

record TimedCharacter =
  ch_time :: LRCTime
  character :: pystr

definition standard_parse :: "pystr \<Rightarrow> pystr \<Rightarrow> pystr \<Rightarrow> pystr \<Rightarrow> error + TimedCharacter" where
  "standard_parse m s ms ch =
     (case LRCTime_init m s ms of
        Inl e \<Rightarrow> Inl e
      | Inr current_time \<Rightarrow> Inr \<lparr>ch_time = current_time, character = ch\<rparr>)"

record EnhancedLyricLine =
  characters :: "TimedCharacter list"
  end_time_override :: "LRCTime option"

definition EnhancedLyricLine_init :: "TimedCharacter list \<Rightarrow> EnhancedLyricLine" where
  "EnhancedLyricLine_init cs = \<lparr>characters = cs, end_time_override = None\<rparr>"

definition start_time :: "EnhancedLyricLine \<Rightarrow> LRCTime option" where
  "start_time l = (case characters l of [] \<Rightarrow> None | c # _ \<Rightarrow> Some (ch_time c))"

text \<open>An \<^verbatim>\<open>LRCTime\<close> object is always true, so a set override is always used.\<close>

definition end_time :: "EnhancedLyricLine \<Rightarrow> LRCTime option" where
  "end_time l =
     (case end_time_override l of
        Some t \<Rightarrow> Some t
      | None \<Rightarrow> (case characters l of [] \<Rightarrow> None | c # cs \<Rightarrow> Some (ch_time (last (c # cs)))))"

text \<open>The property \<^verbatim>\<open>text\<close>.\<close>

definition line_text :: "EnhancedLyricLine \<Rightarrow> pystr" where
  "line_text l = concat (map character (characters l))"

text \<open>\<^verbatim>\<open>EnhancedLyricLine.__lt__\<close> and \<^verbatim>\<open>__eq__\<close>; \<^verbatim>\<open>None\<close> equals \<^verbatim>\<open>None\<close> only.\<close>

definition EnhancedLyricLine_lt :: "EnhancedLyricLine \<Rightarrow> EnhancedLyricLine \<Rightarrow> bool" where
  "EnhancedLyricLine_lt a b =
     (case start_time a of
        None \<Rightarrow> False
      | Some self_time \<Rightarrow>
          (case start_time b of
             None \<Rightarrow> True
           | Some other_time \<Rightarrow> LRCTime_lt self_time other_time))"

definition EnhancedLyricLine_eq :: "EnhancedLyricLine \<Rightarrow> EnhancedLyricLine \<Rightarrow> bool" where
  "EnhancedLyricLine_eq a b =
     (case (start_time a, start_time b) of
        (None, None) \<Rightarrow> True
      | (Some s, Some t) \<Rightarrow> LRCTime_eq s t
      | _ \<Rightarrow> False)"

subsection \<open>EnhancedLyricLine.from\_string\<close>

definition not_bracket :: "nat \<Rightarrow> bool" where
  "not_bracket c = (c \<noteq> 91 \<and> c \<noteq> 93)"

text \<open>
  \<^verbatim>\<open>re.findall(r"\[(\d{2}):(\d{2})\.(\d{1,3})\]([^\[\]]*)", line_str)\<close>: the matches from
  left to right. After a match the search goes on behind its last group; where the
  pattern does not match, it moves one character on.
\<close>

function findall_time :: "pystr \<Rightarrow> (pystr \<times> pystr \<times> pystr \<times> pystr) list" where
  "findall_time s =
     (case time_match_at s of
        Some (m, sec, f, rest) \<Rightarrow>
          (m, sec, f, takeWhile not_bracket rest) # findall_time (dropWhile not_bracket rest)
      | None \<Rightarrow> (case s of [] \<Rightarrow> [] | _ # t \<Rightarrow> findall_time t))"
  by pat_completeness auto
termination
proof (relation "measure length")
  show "wf (measure length)" by simp
next
  fix s :: pystr and x2 m y sec ya f rest
  assume "time_match_at s = Some x2" and "(m, y) = x2" and "(sec, ya) = y" and "(f, rest) = ya"
  then have "time_match_at s = Some (m, sec, f, rest)" by simp
  then have "length rest < length s"
    by (auto simp: time_match_at_def Let_def split: list.splits if_splits)
      (metis drop_Cons' length_Cons length_drop less_Suc_eq_le diff_le_self
        less_imp_le_nat not_less_eq_eq)
  moreover have "length (dropWhile not_bracket rest) \<le> length rest"
    by (rule length_dropWhile_le)
  ultimately show "(dropWhile not_bracket rest, s) \<in> measure length" by simp
next
  fix s :: pystr and x21 t
  assume "s = x21 # t"
  then show "(t, s) \<in> measure length" by simp
qed

declare findall_time.simps [simp del]

definition from_string :: "pystr \<Rightarrow> error + EnhancedLyricLine" where
  "from_string line_str =
     (case map_err (\<lambda>(minutes, seconds, milliseconds, ch).
                      standard_parse minutes seconds milliseconds ch)
             (findall_time line_str) of
        Inl e \<Rightarrow> Inl e
      | Inr cs \<Rightarrow> Inr (EnhancedLyricLine_init cs))"

section \<open>Objects: the constructors of the combined lines\<close>

text \<open>
  The constructors \<^verbatim>\<open>CombinedLyricLine.__init__\<close> and
  \<^verbatim>\<open>EnhancedCombinedLyricLine.__init__\<close> receive objects that their caller still holds, copy
  them with \<^verbatim>\<open>deepcopy\<close> and assign to an attribute of the copies. What this does to the
  caller's objects is a matter of identity, so here the objects live in a store: a
  reference is a number, and the store maps the references in use to the attributes of
  their objects. An operation on a reference of the wrong class, an \<^verbatim>\<open>AttributeError\<close> in
  Python, is \<open>None\<close>.
\<close>

type_synonym ref = nat

datatype pyobj =
    TimeObj timedelta
  | LineObj "ref option" pystr
  | CharObj ref pystr
  | EnhLineObj "ref list" "ref option"

text \<open>
  \<open>TimeObj\<close> is an \<^verbatim>\<open>LRCTime\<close> with its \<^verbatim>\<open>time\<close>; \<open>LineObj\<close> a \<^verbatim>\<open>LyricLine\<close> with \<^verbatim>\<open>time\<close>
  (a reference, or \<^verbatim>\<open>None\<close>) and \<^verbatim>\<open>texts\<close>; \<open>CharObj\<close> a \<^verbatim>\<open>TimedCharacter\<close> with \<^verbatim>\<open>time\<close>
  and \<^verbatim>\<open>character\<close>; \<open>EnhLineObj\<close> an \<^verbatim>\<open>EnhancedLyricLine\<close> with \<^verbatim>\<open>characters\<close> and
  \<^verbatim>\<open>_end_time_override\<close>.
\<close>

record store =
  objs :: "ref \<Rightarrow> pyobj option"
  next_ref :: ref

definition alloc :: "store \<Rightarrow> pyobj \<Rightarrow> ref \<times> store" where
  "alloc st ob =
     (next_ref st, st\<lparr>objs := (objs st)(next_ref st \<mapsto> ob), next_ref := Suc (next_ref st)\<rparr>)"

text \<open>
  \<^verbatim>\<open>deepcopy(t)\<close> for a \<^verbatim>\<open>LyricLine\<close>: a new line object whose \<^verbatim>\<open>time\<close> is a new copy of
  the \<^verbatim>\<open>LRCTime\<close> of \<open>t\<close>; the string is shared, being immutable.
\<close>

definition deepcopy_line :: "store \<Rightarrow> ref \<Rightarrow> (ref \<times> store) option" where
  "deepcopy_line st r =
     (case objs st r of
        Some (LineObj tr txt) \<Rightarrow>
          (case tr of
             None \<Rightarrow> Some (alloc st (LineObj None txt))
           | Some t \<Rightarrow>
               (case objs st t of
                  Some (TimeObj td) \<Rightarrow>
                    (case alloc st (TimeObj td) of
                       (t', st1) \<Rightarrow> Some (alloc st1 (LineObj (Some t') txt)))
                | _ \<Rightarrow> None))
      | _ \<Rightarrow> None)"

text \<open>The assignment \<^verbatim>\<open>copy_line.time = ...\<close>.\<close>

definition set_line_time :: "store \<Rightarrow> ref \<Rightarrow> ref option \<Rightarrow> store option" where
  "set_line_time st r tm =
     (case objs st r of
        Some (LineObj _ txt) \<Rightarrow> Some (st\<lparr>objs := (objs st)(r \<mapsto> LineObj tm txt)\<rparr>)
      | _ \<Rightarrow> None)"

text \<open>The loop of both constructors: the list \<^verbatim>\<open>self.trans\<close> and the store after it.\<close>

fun stamp_copies :: "store \<Rightarrow> ref option \<Rightarrow> ref list \<Rightarrow> (ref list \<times> store) option" where
  "stamp_copies st tm [] = Some ([], st)"
| "stamp_copies st tm (t # ts) =
     (case deepcopy_line st t of
        None \<Rightarrow> None
      | Some (copy_line, st1) \<Rightarrow>
          (case set_line_time st1 copy_line tm of
             None \<Rightarrow> None
           | Some st2 \<Rightarrow>
               (case stamp_copies st2 tm ts of
                  None \<Rightarrow> None
                | Some (cs, st3) \<Rightarrow> Some (copy_line # cs, st3))))"

record CombinedLyricLine_obj =
  origin_ref :: ref
  time_ref :: "ref option"
  trans_refs :: "ref list"

definition CombinedLyricLine_init_store ::
  "store \<Rightarrow> ref \<Rightarrow> ref list \<Rightarrow> (CombinedLyricLine_obj \<times> store) option" where
  "CombinedLyricLine_init_store st orig ts =
     (case objs st orig of
        Some (LineObj tm _) \<Rightarrow>
          (case stamp_copies st tm ts of
             None \<Rightarrow> None
           | Some (cs, st') \<Rightarrow> Some (\<lparr>origin_ref = orig, time_ref = tm, trans_refs = cs\<rparr>, st'))
      | _ \<Rightarrow> None)"

text \<open>The properties \<^verbatim>\<open>start_time\<close> and \<^verbatim>\<open>end_time\<close> of an \<^verbatim>\<open>EnhancedLyricLine\<close> object.\<close>

definition start_time_of :: "store \<Rightarrow> ref \<Rightarrow> ref option option" where
  "start_time_of st r =
     (case objs st r of
        Some (EnhLineObj cs ov) \<Rightarrow>
          (case cs of
             [] \<Rightarrow> Some None
           | c # _ \<Rightarrow> (case objs st c of Some (CharObj t _) \<Rightarrow> Some (Some t) | _ \<Rightarrow> None))
      | _ \<Rightarrow> None)"

definition end_time_of :: "store \<Rightarrow> ref \<Rightarrow> ref option option" where
  "end_time_of st r =
     (case objs st r of
        Some (EnhLineObj cs ov) \<Rightarrow>
          (case ov of
             Some t \<Rightarrow> Some (Some t)
           | None \<Rightarrow>
               (case cs of
                  [] \<Rightarrow> Some None
                | c # cs' \<Rightarrow>
                    (case objs st (last (c # cs')) of
                       Some (CharObj t _) \<Rightarrow> Some (Some t)
                     | _ \<Rightarrow> None)))
      | _ \<Rightarrow> None)"

record EnhancedCombinedLyricLine_obj =
  enh_origin_ref :: ref
  start_time_ref :: "ref option"
  end_time_ref :: "ref option"
  enh_trans_refs :: "ref list"

definition EnhancedCombinedLyricLine_init_store ::
  "store \<Rightarrow> ref \<Rightarrow> ref list \<Rightarrow> (EnhancedCombinedLyricLine_obj \<times> store) option" where
  "EnhancedCombinedLyricLine_init_store st orig ts =
     (case start_time_of st orig of
        None \<Rightarrow> None
      | Some st_time \<Rightarrow>
          (case end_time_of st orig of
             None \<Rightarrow> None
           | Some en_time \<Rightarrow>
               (case stamp_copies st st_time ts of
                  None \<Rightarrow> None
                | Some (cs, st') \<Rightarrow>
                    Some (\<lparr>enh_origin_ref = orig, start_time_ref = st_time,
                           end_time_ref = en_time, enh_trans_refs = cs\<rparr>, st'))))"

text \<open>
  A store is well formed when no reference at or above \<open>next_ref\<close> is in use; a reference
  is a line of the store when it holds a \<^verbatim>\<open>LyricLine\<close> whose \<^verbatim>\<open>time\<close> is \<^verbatim>\<open>None\<close> or an
  \<^verbatim>\<open>LRCTime\<close> of the store.
\<close>

definition store_ok :: "store \<Rightarrow> bool" where
  "store_ok st = (\<forall>r. next_ref st \<le> r \<longrightarrow> objs st r = None)"

definition is_line :: "store \<Rightarrow> ref \<Rightarrow> bool" where
  "is_line st r =
     (case objs st r of
        Some (LineObj tr txt) \<Rightarrow>
          (case tr of
             None \<Rightarrow> True
           | Some t \<Rightarrow> (case objs st t of Some (TimeObj td) \<Rightarrow> True | _ \<Rightarrow> False))
      | _ \<Rightarrow> False)"

text \<open>The text of a line object, and whether a stored copy is the stamped copy of an input.\<close>

definition line_texts :: "store \<Rightarrow> ref \<Rightarrow> pystr option" where
  "line_texts st r = (case objs st r of Some (LineObj tr txt) \<Rightarrow> Some txt | _ \<Rightarrow> None)"

definition stamped_copy :: "store \<Rightarrow> store \<Rightarrow> ref option \<Rightarrow> ref \<Rightarrow> ref \<Rightarrow> bool" where
  "stamped_copy st st' tm t c =
     (next_ref st \<le> c \<and>
      (case line_texts st t of
         None \<Rightarrow> False
       | Some txt \<Rightarrow> objs st' c = Some (LineObj tm txt)))"

text \<open>
  The matching of the merge in words: a translation line is within the interval of an
  origin line when their total milliseconds differ by at most the interval, and the
  candidate of a document is the first such line.
\<close>

definition within_interval :: "LyricLine \<Rightarrow> int \<Rightarrow> LyricLine \<Rightarrow> bool" where
  "within_interval orig interval x =
     (\<bar>total_milliseconds (time x) - total_milliseconds (time orig)\<bar> \<le> interval)"

definition first_candidate :: "LyricLine \<Rightarrow> int \<Rightarrow> LyricLine list \<Rightarrow> LyricLine list" where
  "first_candidate orig interval ls =
     (case find (within_interval orig interval) ls of None \<Rightarrow> [] | Some x \<Rightarrow> [x])"

text \<open>The placeholder line, stamped with the time of an origin line.\<close>

definition placeholder :: "LyricLine \<Rightarrow> LyricLine" where
  "placeholder orig = \<lparr>time = time orig, texts = []\<rparr>"

text \<open>
  The translations attached to an origin line: the first candidate of every document, or
  the placeholder when no document has one, all stamped with the time of the origin line.
\<close>

definition merged_trans ::
  "LyricLine \<Rightarrow> int \<Rightarrow> LyricLine StandardLyricDocument list \<Rightarrow> LyricLine list" where
  "merged_trans orig interval docs =
     (let sel = concat (map (\<lambda>d. first_candidate orig interval (lines d)) docs)
      in map (\<lambda>t. t\<lparr>time := time orig\<rparr>) (if sel = [] then [placeholder orig] else sel))"

text \<open>
  A timestamp \<^verbatim>\<open>[MM:SS.fff]\<close> as text, and the shape of its three fields: two decimal
  digits, two decimal digits, one to three decimal digits.
\<close>

definition stamp :: "pystr \<Rightarrow> pystr \<Rightarrow> pystr \<Rightarrow> pystr" where
  "stamp m s f = [91] @ m @ [58] @ s @ [46] @ f @ [93]"

definition timestamp_fields :: "pystr \<Rightarrow> pystr \<Rightarrow> pystr \<Rightarrow> bool" where
  "timestamp_fields m s f =
     (length m = 2 \<and> list_all isdecimal m \<and> length s = 2 \<and> list_all isdecimal s
      \<and> 1 \<le> length f \<and> length f \<le> 3 \<and> list_all isdecimal f)"

text \<open>
  A line of the enhanced format as a list of segments: each segment is a timestamp and the
  text that follows it up to the next bracket.
\<close>

definition segment_ok :: "pystr \<times> pystr \<times> pystr \<times> pystr \<Rightarrow> bool" where
  "segment_ok g =
     (case g of (m, s, f, p) \<Rightarrow>
        timestamp_fields m s f \<and> list_all not_bracket p \<and> str_value s \<le> 59)"

definition segment_text :: "pystr \<times> pystr \<times> pystr \<times> pystr \<Rightarrow> pystr" where
  "segment_text g = (case g of (m, s, f, p) \<Rightarrow> stamp m s f @ p)"

definition segment_char :: "pystr \<times> pystr \<times> pystr \<times> pystr \<Rightarrow> TimedCharacter" where
  "segment_char g =
     (case g of (m, s, f, p) \<Rightarrow>
        \<lparr>ch_time = \<lparr>tdelta = str_value m * 60000000 + str_value s * 1000000
                             + str_value (ljust f 3 48) * 1000\<rparr>,
         character = p\<rparr>)"

text \<open>
  A line of the enhanced format with the text that the search passes over. A gap is a
  text in which no timestamp begins: the timestamp pattern matches at none of its
  positions. What follows a payload is the end of the line or a bracket, since the payload
  takes every character that is not a bracket.
\<close>

fun gap_ok :: "pystr \<Rightarrow> bool" where
  "gap_ok [] = True"
| "gap_ok (c # cs) = (time_match_at (c # cs) = None \<and> gap_ok cs)"

definition after_payload :: "pystr \<Rightarrow> bool" where
  "after_payload r = (r = [] \<or> hd r = 91 \<or> hd r = 93)"

definition seg_shape :: "pystr \<times> pystr \<times> pystr \<times> pystr \<Rightarrow> bool" where
  "seg_shape g = (case g of (m, s, f, p) \<Rightarrow> timestamp_fields m s f \<and> list_all not_bracket p)"

text \<open>
  The line made of the items \<open>(gap, segment)\<close> and a last gap; \<open>enh_ok first items tail\<close>
  says that it is well formed. Unless \<open>first\<close> holds, the first gap follows a payload.
\<close>

fun enh_render :: "(pystr \<times> pystr \<times> pystr \<times> pystr \<times> pystr) list \<Rightarrow> pystr \<Rightarrow> pystr" where
  "enh_render [] tail = tail"
| "enh_render ((j, g) # items) tail = j @ segment_text g @ enh_render items tail"

fun enh_ok :: "bool \<Rightarrow> (pystr \<times> pystr \<times> pystr \<times> pystr \<times> pystr) list \<Rightarrow> pystr \<Rightarrow> bool" where
  "enh_ok first [] tail = (gap_ok tail \<and> (first \<or> after_payload tail))"
| "enh_ok first ((j, g) # items) tail =
     (gap_ok j \<and> (first \<or> after_payload j) \<and> seg_shape g \<and> enh_ok False items tail)"

text \<open>
  The total of milliseconds as the docstring of \<^verbatim>\<open>total_milliseconds\<close> words it, ``total
  milliseconds since 0:00.000'': the whole milliseconds in the stored time.
\<close>

definition exact_total_milliseconds :: "LRCTime \<Rightarrow> int" where
  "exact_total_milliseconds t = tdelta t div 1000"

text \<open>
  A small store: an origin line at 1000 ms (reference 1), a translation at 900 ms
  (reference 3) and an enhanced line with one character (reference 5).
\<close>

definition example_store :: store where
  "example_store =
     \<lparr>objs = [0 \<mapsto> TimeObj 1000000, 1 \<mapsto> LineObj (Some 0) (ascii ''a''),
              2 \<mapsto> TimeObj 900000, 3 \<mapsto> LineObj (Some 2) (ascii ''x''),
              4 \<mapsto> CharObj 0 (ascii ''k''), 5 \<mapsto> EnhLineObj [4] None],
      next_ref = 6\<rparr>"

section \<open>Properties\<close>

subsection \<open>Rounding to doubles\<close>

lemma bit_length_pos: "0 < n \<Longrightarrow> 1 \<le> bit_length n"
proof (induction n rule: bit_length.induct)
  case (1 n)
  show ?case
  proof (cases "n div 2 \<le> 0")
    case True
    then have "bit_length (n div 2) = 0" by (subst bit_length.simps) simp
    with "1.prems" show ?thesis by (subst bit_length.simps) simp
  next
    case False
    with "1.IH" "1.prems" have "1 \<le> bit_length (n div 2)" by simp
    with "1.prems" show ?thesis by (subst bit_length.simps) simp
  qed
qed

lemma bit_length_bounds:
  "0 < n \<Longrightarrow> 2 powi (bit_length n - 1) \<le> (of_int n :: rat) \<and> (of_int n :: rat) < 2 powi (bit_length n)"
proof (induction n rule: bit_length.induct)
  case (1 n)
  have bl: "bit_length n = 1 + bit_length (n div 2)"
    using "1.prems" by (subst bit_length.simps) simp
  show ?case
  proof (cases "n div 2 \<le> 0")
    case True
    with "1.prems" have n1: "n = 1" by presburger
    have "bit_length (n div 2) = 0" using True by (subst bit_length.simps) simp
    with bl n1 show ?thesis by simp
  next
    case False
    then have pos: "0 < n div 2" by simp
    let ?b = "bit_length (n div 2)"
    from "1.IH" "1.prems" pos
    have ih: "2 powi (?b - 1) \<le> (of_int (n div 2) :: rat)" "(of_int (n div 2) :: rat) < 2 powi ?b"
      by auto
    have bpos: "1 \<le> ?b" using pos by (rule bit_length_pos)
    have e1: "(2::rat) powi ?b = 2 ^ nat ?b" using bpos by (simp add: power_int_def)
    have e2: "(2::rat) powi (?b - 1) = 2 ^ nat (?b - 1)" using bpos by (simp add: power_int_def)
    from ih(1) e2 have "(2::int) ^ nat (?b - 1) \<le> n div 2"
      by (metis of_int_le_iff of_int_numeral of_int_power)
    then have "2 * 2 ^ nat (?b - 1) \<le> 2 * (n div 2)" by simp
    also have "\<dots> \<le> n" by presburger
    finally have "(2::int) ^ Suc (nat (?b - 1)) \<le> n" by simp
    moreover have "Suc (nat (?b - 1)) = nat ?b" using bpos by simp
    ultimately have lo_int: "(2::int) ^ nat ?b \<le> n" by simp
    have lo: "2 powi (bit_length n - 1) \<le> (of_int n :: rat)"
    proof -
      have "(of_int ((2::int) ^ nat ?b) :: rat) \<le> of_int n" using lo_int by (simp only: of_int_le_iff)
      then show ?thesis using bl e1 by simp
    qed
    from ih(2) e1 have "n div 2 < (2::int) ^ nat ?b"
      by (metis of_int_less_iff of_int_numeral of_int_power)
    then have "2 * (n div 2) + 2 \<le> 2 * 2 ^ nat ?b" by simp
    moreover have "n < 2 * (n div 2) + 2" by presburger
    ultimately have hi_int: "n < (2::int) ^ Suc (nat ?b)" by simp
    have hi: "(of_int n :: rat) < 2 powi (bit_length n)"
    proof -
      have "(of_int n :: rat) < of_int ((2::int) ^ Suc (nat ?b))" using hi_int by (simp only: of_int_less_iff)
      moreover have "(2::rat) powi (1 + ?b) = 2 ^ Suc (nat ?b)"
        using bpos by (simp add: power_int_def nat_add_distrib)
      ultimately show ?thesis using bl by simp
    qed
    from lo hi show ?thesis by simp
  qed
qed

lemma ilog2_bounds:
  assumes "0 < x"
  shows "2 powi (ilog2 x) \<le> x" and "x < 2 powi (ilog2 x + 1)"
proof -
  obtain p q where pq: "quotient_of x = (p, q)" by (cases "quotient_of x")
  then have q: "0 < q" by (rule quotient_of_denom_pos)
  have x: "x = of_int p / of_int q" using pq by (rule quotient_of_div)
  with assms q have p: "0 < p" by (simp add: zero_less_divide_iff)
  define d where "d = bit_length p - bit_length q"
  note bp = bit_length_bounds [OF p] and bq = bit_length_bounds [OF q]
  have qpos: "(0::rat) < of_int q" using q by simp
  have ppos: "(0::rat) \<le> of_int p" using p by simp
  have "x < 2 powi (bit_length p) / 2 powi (bit_length q - 1)"
    unfolding x using bp bq ppos
    by (intro frac_less) auto
  also have "\<dots> = 2 powi (d + 1)"
    by (simp add: d_def power_int_diff power_int_add)
  finally have up: "x < 2 powi (d + 1)" .
  have "2 powi (bit_length p - 1) / 2 powi (bit_length q) < x"
    unfolding x using bp bq qpos
    by (intro frac_less2) auto
  moreover have "2 powi (bit_length p - 1) / 2 powi (bit_length q) = (2::rat) powi (d - 1)"
    by (simp add: d_def power_int_diff power_int_add)
  ultimately have low: "2 powi (d - 1) < x" by simp
  have il: "ilog2 x = (if 2 powi d \<le> x then d else d - 1)"
    by (simp add: ilog2_def pq d_def Let_def)
  show "2 powi (ilog2 x) \<le> x" using low by (simp add: il less_imp_le)
  show "x < 2 powi (ilog2 x + 1)" using up by (simp add: il not_le)
qed

lemma round_half_even_error: "\<bar>of_int (round_half_even x) - x\<bar> \<le> 1 / 2"
proof -
  have "of_int \<lfloor>x\<rfloor> \<le> x" "x < of_int \<lfloor>x\<rfloor> + 1" by linarith+
  then show ?thesis
    by (auto simp: round_half_even_def Let_def abs_le_iff)
qed

lemma round_half_even_near:
  assumes "\<bar>x - of_int n\<bar> < 1 / 2"
  shows "round_half_even x = n"
proof -
  have e: "\<bar>of_int (round_half_even x) - x\<bar> \<le> 1 / 2" by (rule round_half_even_error)
  have "\<bar>(of_int (round_half_even x) :: rat) - of_int n\<bar> < 1"
    using e assms by linarith
  then have "\<bar>(of_int (round_half_even x - n) :: rat)\<bar> < 1" by simp
  then have "\<bar>round_half_even x - n\<bar> < 1"
    by (metis of_int_abs of_int_less_1_iff)
  then show ?thesis by simp
qed

lemma fl_error:
  assumes "0 < x"
  shows "\<bar>fl x - x\<bar> \<le> x / 2 ^ 53"
proof -
  define e where "e = ilog2 x - 52"
  define m where "m = round_half_even (x / 2 powi e)"
  have pe: "(0::rat) < 2 powi e" by simp
  have flx: "fl x = of_int m * 2 powi e"
    using assms by (simp add: fl_def e_def m_def Let_def)
  have "\<bar>of_int m - x / 2 powi e\<bar> \<le> 1 / 2"
    unfolding m_def by (rule round_half_even_error)
  then have "\<bar>of_int m - x / 2 powi e\<bar> * 2 powi e \<le> 1 / 2 * 2 powi e"
    using pe by (intro mult_right_mono) auto
  moreover have "\<bar>of_int m - x / 2 powi e\<bar> * 2 powi e = \<bar>of_int m * 2 powi e - x\<bar>"
  proof -
    have "\<bar>of_int m - x / 2 powi e\<bar> * 2 powi e = \<bar>(of_int m - x / 2 powi e) * 2 powi e\<bar>"
      using pe by (simp add: abs_mult)
    also have "(of_int m - x / 2 powi e) * 2 powi e = of_int m * 2 powi e - x"
      using pe by (simp add: field_simps)
    finally show ?thesis .
  qed
  ultimately have err: "\<bar>fl x - x\<bar> \<le> 2 powi e / 2" by (simp add: flx)
  have "2 powi (ilog2 x) \<le> x" using assms by (rule ilog2_bounds)
  moreover have "(2::rat) powi (ilog2 x) = 2 powi e * 2 ^ 52"
    by (simp add: e_def power_int_diff)
  ultimately have "2 powi e * 2 ^ 52 \<le> x" by simp
  then have "2 powi e / 2 \<le> x / 2 ^ 53" by (simp add: field_simps)
  with err show ?thesis by linarith
qed

lemma err_sum:
  fixes a b t :: rat
  assumes "\<bar>a\<bar> \<le> t / 2 ^ 53" "\<bar>b\<bar> \<le> (t + t / 2 ^ 53) / 2 ^ 53" "t \<le> 2 ^ 51 - 1"
  shows "\<bar>a + b\<bar> < 1 / 2"
proof -
  have "\<bar>a + b\<bar> \<le> \<bar>a\<bar> + \<bar>b\<bar>" by (rule abs_triangle_ineq)
  also have "\<dots> \<le> t / 2 ^ 53 + (t + t / 2 ^ 53) / 2 ^ 53" using assms(1,2) by (rule add_mono)
  also have "\<dots> = t * (2 * 2 ^ 53 + 1) / (2 ^ 53 * 2 ^ 53)" by (simp add: field_simps)
  also have "\<dots> \<le> (2 ^ 51 - 1) * (2 * 2 ^ 53 + 1) / (2 ^ 53 * 2 ^ 53)"
    using assms(3) by (intro divide_right_mono mult_right_mono) auto
  also have "\<dots> < 1 / 2" by simp
  finally show ?thesis .
qed

lemma fl_zero: "fl 0 = 0"
  by (simp add: fl_def)

lemma ms_exact:
  assumes "0 \<le> T" "T < 2 ^ 51"
  shows "round_half_even (fl (fl (of_int (T * 1000) / 10 ^ 6) * 1000)) = T"
proof (cases "T = 0")
  case True
  then show ?thesis by (simp add: fl_zero round_half_even_def)
next
  case False
  with assms have Tpos: "0 < T" by simp
  define x :: rat where "x = of_int (T * 1000) / 10 ^ 6"
  define y where "y = fl x"
  define z where "z = fl (y * 1000)"
  have x: "x = of_int T / 1000" by (simp add: x_def)
  have xpos: "0 < x" using Tpos by (simp add: x)
  have ey: "\<bar>y - x\<bar> \<le> x / 2 ^ 53" unfolding y_def using xpos by (rule fl_error)
  then have ypos: "0 < y" using xpos
  proof -
    have "x / 2 ^ 53 < x" using xpos by (simp add: field_simps)
    with ey show ?thesis by linarith
  qed
  have ez: "\<bar>z - y * 1000\<bar> \<le> y * 1000 / 2 ^ 53"
    unfolding z_def using ypos by (intro fl_error) simp
  have Tb: "(of_int T :: rat) \<le> 2 ^ 51 - 1"
  proof -
    from assms have "T \<le> 2 ^ 51 - 1" by simp
    then have "(of_int T :: rat) \<le> of_int (2 ^ 51 - 1)" by (simp only: of_int_le_iff)
    then show ?thesis by simp
  qed
  have x1000: "x * 1000 = of_int T" by (simp add: x)
  have h1: "\<bar>y * 1000 - of_int T\<bar> \<le> of_int T / 2 ^ 53"
  proof -
    have "\<bar>y * 1000 - x * 1000\<bar> = \<bar>(y - x) * 1000\<bar>"
      by (simp only: left_diff_distrib)
    also have "\<dots> = \<bar>y - x\<bar> * 1000"
      by (simp only: abs_mult abs_numeral)
    also have "\<dots> \<le> x / 2 ^ 53 * 1000" using ey by simp
    also have "\<dots> = x * 1000 / 2 ^ 53" by simp
    finally show ?thesis by (simp only: x1000)
  qed
  then have h2: "y * 1000 \<le> of_int T + of_int T / 2 ^ 53" by linarith
  have h3: "\<bar>z - y * 1000\<bar> \<le> (of_int T + of_int T / 2 ^ 53) / 2 ^ 53"
  proof -
    have "y * 1000 / 2 ^ 53 \<le> (of_int T + of_int T / 2 ^ 53) / 2 ^ 53"
      using h2 by (intro divide_right_mono) auto
    with ez show ?thesis by linarith
  qed
  have "\<bar>(y * 1000 - of_int T) + (z - y * 1000)\<bar> < 1 / 2"
    using h1 h3 Tb by (rule err_sum)
  then have "\<bar>z - of_int T\<bar> < 1 / 2" by simp
  then show ?thesis unfolding z_def y_def x_def by (rule round_half_even_near)
qed

text \<open>
  The error of one rounding in terms of the binade: below \<open>2\<^sup>k\<close> it is at most half a unit
  in the last place, \<open>2\<^sup>k\<^sup>-\<^sup>5\<^sup>4\<close>. With it the two roundings of \<^verbatim>\<open>total_milliseconds\<close> stay
  within half a millisecond below \<open>1000 \<times> 2\<^sup>4\<^sup>2\<close> milliseconds; the next eleven values are
  computed.
\<close>

lemma fl_error_exp:
  assumes "0 < x"
  shows "\<bar>fl x - x\<bar> \<le> 2 powi (ilog2 x - 53)"
proof -
  define e where "e = ilog2 x - 52"
  define m where "m = round_half_even (x / 2 powi e)"
  have pe: "(0::rat) < 2 powi e" by simp
  have flx: "fl x = of_int m * 2 powi e"
    using assms by (simp add: fl_def e_def m_def Let_def)
  have "\<bar>of_int m - x / 2 powi e\<bar> \<le> 1 / 2"
    unfolding m_def by (rule round_half_even_error)
  then have "\<bar>of_int m - x / 2 powi e\<bar> * 2 powi e \<le> 1 / 2 * 2 powi e"
    using pe by (intro mult_right_mono) auto
  moreover have "\<bar>of_int m - x / 2 powi e\<bar> * 2 powi e = \<bar>of_int m * 2 powi e - x\<bar>"
  proof -
    have "\<bar>of_int m - x / 2 powi e\<bar> * 2 powi e = \<bar>(of_int m - x / 2 powi e) * 2 powi e\<bar>"
      using pe by (simp add: abs_mult)
    also have "(of_int m - x / 2 powi e) * 2 powi e = of_int m * 2 powi e - x"
      using pe by (simp add: field_simps)
    finally show ?thesis .
  qed
  ultimately have err: "\<bar>fl x - x\<bar> \<le> 2 powi e / 2" by (simp add: flx)
  have "(2::rat) powi e / 2 = 2 powi (ilog2 x - 53)"
    by (simp add: e_def power_int_diff)
  with err show ?thesis by simp
qed

lemma fl_error_below:
  assumes "0 < x" "x < 2 powi k"
  shows "\<bar>fl x - x\<bar> \<le> 2 powi (k - 54)"
proof -
  have "2 powi (ilog2 x) \<le> x" using assms(1) by (rule ilog2_bounds)
  with assms(2) have "(2::rat) powi (ilog2 x) < 2 powi k" by simp
  have "ilog2 x < k"
  proof (rule ccontr)
    assume "\<not> ilog2 x < k"
    then have "k \<le> ilog2 x" by simp
    then have "(2::rat) powi k \<le> 2 powi (ilog2 x)" by (intro power_int_increasing) simp_all
    with \<open>(2::rat) powi (ilog2 x) < 2 powi k\<close> show False by simp
  qed
  then have "ilog2 x - 53 \<le> k - 54" by simp
  then have "(2::rat) powi (ilog2 x - 53) \<le> 2 powi (k - 54)"
    by (intro power_int_increasing) simp_all
  with fl_error_exp [OF assms(1)] show ?thesis by simp
qed

lemma ms_exact_wide:
  assumes "0 \<le> T" "T < 1000 * 2 ^ 42"
  shows "round_half_even (fl (fl (of_int (T * 1000) / 10 ^ 6) * 1000)) = T"
proof (cases "T = 0")
  case True
  then show ?thesis by (simp add: fl_zero round_half_even_def)
next
  case False
  with assms have Tpos: "1 \<le> T" by simp
  define x :: rat where "x = of_int (T * 1000) / 10 ^ 6"
  define y where "y = fl x"
  define z where "z = fl (y * 1000)"
  have x: "x = of_int T / 1000" by (simp add: x_def)
  have T1: "(1::rat) \<le> of_int T" using Tpos by simp
  have T2: "(of_int T :: rat) \<le> 1000 * 2 ^ 42 - 1"
  proof -
    from assms have "T \<le> 1000 * 2 ^ 42 - 1" by simp
    then have "(of_int T :: rat) \<le> of_int (1000 * 2 ^ 42 - 1)" by (simp only: of_int_le_iff)
    then show ?thesis by simp
  qed
  have xpos: "0 < x" using T1 by (simp add: x)
  have xb: "x < 2 powi 42" using T2 by (simp add: x)
  have p12: "(2::rat) powi (42 - 54) = 1 / 4096" by (simp add: power_int_minus)
  have p2: "(2::rat) powi (52 - 54) = 1 / 4" by (simp add: power_int_minus)
  have ey: "\<bar>y - x\<bar> \<le> 1 / 4096"
    using fl_error_below [OF xpos xb] by (simp only: y_def p12)
  have x1000: "x * 1000 = of_int T" by (simp add: x)
  have h1: "\<bar>y * 1000 - of_int T\<bar> \<le> 1000 / 4096"
  proof -
    have "\<bar>y * 1000 - x * 1000\<bar> = \<bar>(y - x) * 1000\<bar>"
      by (simp only: left_diff_distrib)
    also have "\<dots> = \<bar>y - x\<bar> * 1000"
      by (simp only: abs_mult abs_numeral)
    also have "\<dots> \<le> 1000 / 4096" using ey by simp
    finally show ?thesis by (simp only: x1000)
  qed
  have ypos: "0 < y * 1000" using h1 T1 by linarith
  have yb: "y * 1000 < 2 powi 52"
  proof -
    have "y * 1000 \<le> of_int T + 1000 / 4096" using h1 by linarith
    also have "\<dots> \<le> 1000 * 2 ^ 42 - 1 + 1000 / 4096" using T2 by simp
    also have "\<dots> < 2 powi 52" by simp
    finally show ?thesis .
  qed
  have ez: "\<bar>z - y * 1000\<bar> \<le> 1 / 4"
    using fl_error_below [OF ypos yb] by (simp only: z_def p2)
  have "\<bar>z - of_int T\<bar> < 1 / 2" using h1 ez by linarith
  then have "round_half_even z = T" by (rule round_half_even_near)
  then show ?thesis by (simp only: z_def y_def x_def)
qed

lemma ms_exact_edge:
  assumes "4398046511104000 \<le> T" "T < 4398046511104011"
  shows "round_half_even (fl (fl (of_int (T * 1000) / 10 ^ 6) * 1000)) = T"
proof -
  have e: "round_half_even (fl (fl (of_int (4398046511104000 * 1000) / 10 ^ 6) * 1000)) = 4398046511104000"
    "round_half_even (fl (fl (of_int (4398046511104001 * 1000) / 10 ^ 6) * 1000)) = 4398046511104001"
    "round_half_even (fl (fl (of_int (4398046511104002 * 1000) / 10 ^ 6) * 1000)) = 4398046511104002"
    "round_half_even (fl (fl (of_int (4398046511104003 * 1000) / 10 ^ 6) * 1000)) = 4398046511104003"
    "round_half_even (fl (fl (of_int (4398046511104004 * 1000) / 10 ^ 6) * 1000)) = 4398046511104004"
    "round_half_even (fl (fl (of_int (4398046511104005 * 1000) / 10 ^ 6) * 1000)) = 4398046511104005"
    "round_half_even (fl (fl (of_int (4398046511104006 * 1000) / 10 ^ 6) * 1000)) = 4398046511104006"
    "round_half_even (fl (fl (of_int (4398046511104007 * 1000) / 10 ^ 6) * 1000)) = 4398046511104007"
    "round_half_even (fl (fl (of_int (4398046511104008 * 1000) / 10 ^ 6) * 1000)) = 4398046511104008"
    "round_half_even (fl (fl (of_int (4398046511104009 * 1000) / 10 ^ 6) * 1000)) = 4398046511104009"
    "round_half_even (fl (fl (of_int (4398046511104010 * 1000) / 10 ^ 6) * 1000)) = 4398046511104010"
    by code_simp+
  from assms have "T = 4398046511104000 \<or> T = 4398046511104001 \<or> T = 4398046511104002
      \<or> T = 4398046511104003 \<or> T = 4398046511104004 \<or> T = 4398046511104005
      \<or> T = 4398046511104006 \<or> T = 4398046511104007 \<or> T = 4398046511104008
      \<or> T = 4398046511104009 \<or> T = 4398046511104010" by arith
  then show ?thesis using e by (elim disjE) (simp_all only:)
qed

subsection \<open>Digits and integers\<close>

lemma decimal_value_less: "decimal_value c = Some d \<Longrightarrow> d < 10"
  by (auto simp: decimal_value_def find_Some_iff split: option.splits)

lemma decimal_value_ascii: "48 \<le> c \<Longrightarrow> c < 58 \<Longrightarrow> decimal_value c = Some (c - 48)"
  by (simp add: decimal_value_def decimal_zeros_def)

lemma isdecimal_ascii: "48 \<le> c \<Longrightarrow> c < 58 \<Longrightarrow> isdecimal c"
  by (simp add: isdecimal_def decimal_value_ascii)

lemma isdecimal_isdigit_char: "isdecimal c \<Longrightarrow> isdigit_char c"
  by (simp add: isdigit_char_def)

lemma int_of_digits_None: "int_of_digits acc s = None \<longleftrightarrow> \<not> list_all isdecimal s"
  by (induction s arbitrary: acc) (auto simp: isdecimal_def split: option.splits)

lemma int_of_digits_nonneg: "int_of_digits acc s = Some n \<Longrightarrow> 0 \<le> acc \<Longrightarrow> 0 \<le> n"
  by (induction s arbitrary: acc) (auto split: option.splits)

lemma int_of_digits_append:
  "int_of_digits acc (xs @ ys) =
     (case int_of_digits acc xs of None \<Rightarrow> None | Some a \<Rightarrow> int_of_digits a ys)"
  by (induction xs arbitrary: acc) (auto split: option.splits)

lemma int_of_digits_zeros: "int_of_digits 0 (replicate k 48) = Some 0"
  by (induction k) (auto simp: decimal_value_ascii)

lemma digits_nonempty: "digits n \<noteq> []"
  by (subst digits.simps) simp

lemma digits_ascii: "0 \<le> n \<Longrightarrow> list_all (\<lambda>c. 48 \<le> c \<and> c < 58) (digits n)"
proof (induction n rule: digits.induct)
  case (1 n)
  show ?case
  proof (cases "n < 10")
    case True
    with "1.prems" show ?thesis by (subst digits.simps) auto
  next
    case False
    with "1.prems" have "0 \<le> n div 10" by simp
    with "1.IH" False have "list_all (\<lambda>c. 48 \<le> c \<and> c < 58) (digits (n div 10))" by simp
    moreover have "0 \<le> n mod 10" "n mod 10 < 10" by simp_all
    ultimately show ?thesis using False by (subst digits.simps) auto
  qed
qed

lemma int_of_digits_digits:
  "0 \<le> n \<Longrightarrow> 0 \<le> acc \<Longrightarrow>
   int_of_digits acc (digits n) = Some (acc * 10 ^ length (digits n) + n)"
proof (induction n arbitrary: acc rule: digits.induct)
  case (1 n)
  show ?case
  proof (cases "n < 10")
    case True
    then have d: "digits n = [nat (48 + n)]" by (subst digits.simps) simp
    have "decimal_value (nat (48 + n)) = Some (nat (48 + n) - 48)"
      using True "1.prems" by (intro decimal_value_ascii) auto
    moreover have "int (nat (48 + n) - 48) = n" using "1.prems" by auto
    ultimately show ?thesis by (simp add: d)
  next
    case False
    then have d: "digits n = digits (n div 10) @ [nat (48 + n mod 10)]"
      by (subst digits.simps) simp
    have nn: "0 \<le> n div 10" using "1.prems" by simp
    have ih: "int_of_digits acc (digits (n div 10)) =
                Some (acc * 10 ^ length (digits (n div 10)) + n div 10)"
      using "1.IH" [OF False nn "1.prems"(2)] .
    have m: "0 \<le> n mod 10" "n mod 10 < 10" by simp_all
    have "decimal_value (nat (48 + n mod 10)) = Some (nat (48 + n mod 10) - 48)"
      using m by (intro decimal_value_ascii) auto
    moreover have "int (nat (48 + n mod 10) - 48) = n mod 10" using m by auto
    ultimately show ?thesis
      by (simp add: d int_of_digits_append ih algebra_simps)
  qed
qed

lemma length_digits_le: "0 \<le> n \<Longrightarrow> n < 10 ^ k \<Longrightarrow> 0 < k \<Longrightarrow> length (digits n) \<le> k"
proof (induction n arbitrary: k rule: digits.induct)
  case (1 n)
  show ?case
  proof (cases "n < 10")
    case True
    then have "digits n = [nat (48 + n)]" by (subst digits.simps) simp
    with "1.prems" show ?thesis by simp
  next
    case False
    then have d: "digits n = digits (n div 10) @ [nat (48 + n mod 10)]"
      by (subst digits.simps) simp
    obtain j where k: "k = Suc j" using "1.prems"(3) by (cases k) auto
    have "j \<noteq> 0" using False "1.prems"(2) k by (cases j) auto
    then have jpos: "0 < j" by simp
    have "n < 10 * 10 ^ j" using "1.prems"(2) k by simp
    then have "n div 10 < 10 ^ j" by simp
    moreover have "0 \<le> n div 10" using "1.prems"(1) by simp
    ultimately have "length (digits (n div 10)) \<le> j" using "1.IH" False jpos by simp
    then show ?thesis by (simp add: d k)
  qed
qed

lemma str_value_rjust_digits:
  assumes "0 \<le> n"
  shows "int_of_digits 0 (rjust (digits n) w 48) = Some n"
proof -
  have "int_of_digits 0 (replicate (w - length (digits n)) 48 @ digits n) = Some n"
    using assms by (simp add: int_of_digits_append int_of_digits_zeros int_of_digits_digits)
  then show ?thesis by (simp add: rjust_def)
qed

lemma rjust_digits_ascii:
  assumes "0 \<le> n"
  shows "list_all (\<lambda>c. 48 \<le> c \<and> c < 58) (rjust (digits n) w 48)"
  using digits_ascii [OF assms] by (auto simp: rjust_def list_all_iff)

lemma py_int_decimal:
  "py_int s = (if decimal_string s then Inr (str_value s) else Inl ValueError)"
proof (cases "int_of_digits 0 s")
  case None
  then have "\<not> list_all isdecimal s" by (simp add: int_of_digits_None)
  with None show ?thesis by (simp add: py_int_def decimal_string_def)
next
  case (Some n)
  then have "list_all isdecimal s"
    using int_of_digits_None [of 0 s] by simp
  with Some show ?thesis by (auto simp: py_int_def decimal_string_def str_value_def)
qed

lemma isdigit_if_decimal: "decimal_string s \<Longrightarrow> isdigit s"
  by (auto simp: decimal_string_def isdigit_def list_all_iff intro: isdecimal_isdigit_char)

lemma decimal_string_ljust:
  "s \<noteq> [] \<Longrightarrow> decimal_string (ljust s 3 48) \<longleftrightarrow> decimal_string s"
  by (auto simp: decimal_string_def ljust_def int_max_str_digits_def isdecimal_ascii list_all_iff)

lemma str_value_nonneg: "0 \<le> str_value s"
  by (auto simp: str_value_def split: option.splits dest: int_of_digits_nonneg)

lemma timedelta_cases:
  assumes "0 \<le> m" "0 \<le> s" "s \<le> 59" "0 \<le> ms" "ms \<le> 999"
  shows "timedelta m s ms =
           (if 1439999999999 < m then Inl OverflowError
            else Inr (m * 60000000 + s * 1000000 + ms * 1000))"
proof -
  define us where "us = m * 60000000 + s * 1000000 + ms * 1000"
  have nn: "0 \<le> us div 86400000000" using assms by (simp add: us_def)
  have dm: "us = 86400000000 * (us div 86400000000) + us mod 86400000000"
    "0 \<le> us mod 86400000000" "us mod 86400000000 < 86400000000"
    by simp_all
  have "999999999 < us div 86400000000 \<longleftrightarrow> 1439999999999 < m"
  proof
    assume "999999999 < us div 86400000000"
    with dm have "86400000000000000000 \<le> us" by linarith
    with assms show "1439999999999 < m" unfolding us_def by linarith
  next
    assume "1439999999999 < m"
    with assms have "86400000000000000000 \<le> us" unfolding us_def by linarith
    with dm show "999999999 < us div 86400000000" by linarith
  qed
  with nn show ?thesis by (simp add: timedelta_def Let_def flip: us_def)
qed

lemma LRCTime_init_cases:
  "LRCTime_init m s ms =
     (if \<not> (decimal_string m \<and> decimal_string s \<and> decimal_string ms) then Inl ValueError
      else if 59 < str_value s \<or> 999 < str_value (ljust ms 3 48) then Inl ValueError
      else if 1439999999999 < str_value m then Inl OverflowError
      else Inr \<lparr>tdelta = str_value m * 60000000 + str_value s * 1000000
                          + str_value (ljust ms 3 48) * 1000\<rparr>)"
proof (cases "decimal_string m \<and> decimal_string s \<and> decimal_string ms")
  case False
  have "isdigit ms \<Longrightarrow> ms \<noteq> []" by (simp add: isdigit_def)
  with False show ?thesis
    by (auto simp: LRCTime_init_def py_int_decimal decimal_string_ljust)
next
  case True
  then have dig: "isdigit m" "isdigit s" "isdigit ms" by (simp_all add: isdigit_if_decimal)
  have ne: "ms \<noteq> []" using True by (simp add: decimal_string_def)
  note dl = decimal_string_ljust [OF ne]
  note nn = str_value_nonneg [of m] str_value_nonneg [of s] str_value_nonneg [of "ljust ms 3 48"]
  show ?thesis
  proof (cases "59 < str_value s \<or> 999 < str_value (ljust ms 3 48)")
    case True
    with \<open>decimal_string m \<and> decimal_string s \<and> decimal_string ms\<close> dig nn show ?thesis
      by (auto simp: LRCTime_init_def py_int_decimal dl)
  next
    case False
    then have r: "str_value s \<le> 59" "str_value (ljust ms 3 48) \<le> 999" by simp_all
    have td: "timedelta (str_value m) (str_value s) (str_value (ljust ms 3 48)) =
           (if 1439999999999 < str_value m then Inl OverflowError
            else Inr (str_value m * 60000000 + str_value s * 1000000
                        + str_value (ljust ms 3 48) * 1000))"
      using nn r by (intro timedelta_cases) auto
    from True dig nn r show ?thesis
      by (simp add: LRCTime_init_def py_int_decimal dl td)
  qed
qed

subsection \<open>LRCTime\<close>

lemma replicate_numeral: "replicate (numeral k) x = x # replicate (pred_numeral k) x"
  by (simp add: numeral_eq_Suc)

lemmas str_eval = ascii_def decimal_string_def str_value_def int_max_str_digits_def
  ljust_def rjust_def isdecimal_def decimal_value_ascii replicate_numeral

lemma total_milliseconds_exact:
  assumes "tdelta t = T * 1000" "0 \<le> T" "T < 2 ^ 51"
  shows "total_milliseconds t = T"
  using ms_exact [OF assms(2,3)] by (simp add: total_milliseconds_def total_seconds_def assms(1))

text \<open>
  Claim C4, amended. The constructor succeeds exactly when each of the three parts is a
  non-empty string of decimal digits of at most 4300 characters, the seconds are at most
  59, the milliseconds, padded on the right with zeros to three digits, are at most 999, and
  the minutes are at most 1439999999999. A part that is empty, too long or not made of
  decimal digits, or seconds or milliseconds out of range, give \<^verbatim>\<open>ValueError\<close>; minutes
  beyond the bound alone give the \<^verbatim>\<open>OverflowError\<close> of \<^verbatim>\<open>timedelta\<close>.
\<close>

theorem LRCTime_init_result:
  "LRCTime_init m s ms =
     (if \<not> (decimal_string m \<and> decimal_string s \<and> decimal_string ms) then Inl ValueError
      else if 59 < str_value s \<or> 999 < str_value (ljust ms 3 48) then Inl ValueError
      else if 1439999999999 < str_value m then Inl OverflowError
      else Inr \<lparr>tdelta = str_value m * 60000000 + str_value s * 1000000
                          + str_value (ljust ms 3 48) * 1000\<rparr>)"
  by (rule LRCTime_init_cases)

theorem LRCTime_init_result_witness:
  "LRCTime_init (ascii ''03'') (ascii ''25'') (ascii ''5'') = Inr \<lparr>tdelta = 205500000\<rparr>
   \<and> LRCTime_init (ascii ''03'') (ascii ''60'') (ascii ''5'') = Inl ValueError
   \<and> LRCTime_init (ascii ''03'') (ascii ''25'') (ascii ''1000'') = Inl ValueError
   \<and> LRCTime_init (ascii ''03'') (ascii ''2x'') (ascii ''5'') = Inl ValueError
   \<and> LRCTime_init (ascii ''03'') [] (ascii ''5'') = Inl ValueError"
  using LRCTime_init_result [of "ascii ''03''" "ascii ''25''" "ascii ''5''"]
    LRCTime_init_result [of "ascii ''03''" "ascii ''60''" "ascii ''5''"]
    LRCTime_init_result [of "ascii ''03''" "ascii ''25''" "ascii ''1000''"]
    LRCTime_init_result [of "ascii ''03''" "ascii ''2x''" "ascii ''5''"]
    LRCTime_init_result [of "ascii ''03''" "[]" "ascii ''5''"]
  by (simp add: str_eval decimal_value_def decimal_zeros_def)

text \<open>
  Claim C4 as stated fails: three digit strings with seconds and milliseconds in range on
  which the constructor does not succeed.
\<close>

theorem LRCTime_init_counterexample:
  "decimal_string (ascii ''1440000000000'') \<and> decimal_string (ascii ''00'')
   \<and> decimal_string (ascii ''000'')
   \<and> str_value (ascii ''00'') = 0 \<and> str_value (ljust (ascii ''000'') 3 48) = 0
   \<and> LRCTime_init (ascii ''1440000000000'') (ascii ''00'') (ascii ''000'') = Inl OverflowError"
  by (simp add: LRCTime_init_cases str_eval)

lemma from_total_milliseconds_exact:
  assumes "0 \<le> T" "T < 86400000000000000"
  shows "from_total_milliseconds T = Inr \<lparr>tdelta = T * 1000\<rparr>"
proof -
  define M where "M = T div 60000"
  define S where "S = (T mod 60000) div 1000"
  define R where "R = T mod 1000"
  have M: "0 \<le> M" "M < 10 ^ 16" using assms by (simp_all add: M_def)
  have S: "0 \<le> S" "S \<le> 59" "S < 10 ^ 16" by (simp_all add: S_def)
  have R: "0 \<le> R" "R \<le> 999" "R < 10 ^ 16" by (simp_all add: R_def)
  have "T mod 60000 mod 1000 = T mod 1000" by (simp add: mod_mod_cancel)
  then have "T mod 60000 = 1000 * S + R"
    unfolding S_def R_def using mult_div_mod_eq [of 1000 "T mod 60000"] by simp
  moreover have "T = 60000 * M + T mod 60000" unfolding M_def by simp
  ultimately have T: "T * 1000 = M * 60000000 + S * 1000000 + R * 1000" by simp
  have len: "length (digits M) \<le> int_max_str_digits" "length (digits S) \<le> int_max_str_digits"
    "length (digits R) \<le> int_max_str_digits"
    using length_digits_le [OF M(1,2)] length_digits_le [OF S(1,3)] length_digits_le [OF R(1,3)]
    by (simp_all add: int_max_str_digits_def)
  define a where "a = rjust (digits M) 2 48"
  define b where "b = rjust (digits S) 2 48"
  define c where "c = rjust (digits R) 3 48"
  have f: "format_d 2 M = Inr a" "format_d 2 S = Inr b" "format_d 3 R = Inr c"
    using len M S R by (simp_all add: format_d_def a_def b_def c_def Let_def)
  have lens: "length a \<le> int_max_str_digits" "length b \<le> int_max_str_digits"
    "length c \<le> int_max_str_digits" "3 \<le> length c"
    using len by (auto simp: a_def b_def c_def rjust_def int_max_str_digits_def)
  have ne: "a \<noteq> []" "b \<noteq> []" "c \<noteq> []"
    by (simp_all add: a_def b_def c_def rjust_def digits_nonempty)
  have asc: "list_all (\<lambda>c. 48 \<le> c \<and> c < 58) a" "list_all (\<lambda>c. 48 \<le> c \<and> c < 58) b"
    "list_all (\<lambda>c. 48 \<le> c \<and> c < 58) c"
    unfolding a_def b_def c_def using M S R by (simp_all add: rjust_digits_ascii)
  have dec: "decimal_string a" "decimal_string b" "decimal_string c"
    using asc ne lens by (auto simp: decimal_string_def list_all_iff intro: isdecimal_ascii)
  have lj: "ljust c 3 48 = c" using lens(4) by (simp add: ljust_def)
  have v: "str_value a = M" "str_value b = S" "str_value c = R"
    using M S R by (simp_all add: str_value_def a_def b_def c_def str_value_rjust_digits)
  have Mb: "M \<le> 1439999999999" using assms by (simp add: M_def)
  have "LRCTime_init a b c = Inr \<lparr>tdelta = T * 1000\<rparr>"
    using dec v lj S R Mb by (simp add: LRCTime_init_cases T)
  then show ?thesis
    by (simp add: from_total_milliseconds_def Let_def f flip: M_def S_def R_def)
qed

lemma LRCTime_init_tdelta:
  assumes "LRCTime_init m s ms = Inr t"
  shows "\<exists>T. 0 \<le> T \<and> T < 86400000000000000 \<and> tdelta t = T * 1000"
proof -
  let ?T = "str_value m * 60000 + str_value s * 1000 + str_value (ljust ms 3 48)"
  have c: "str_value m \<le> 1439999999999" "str_value s \<le> 59" "str_value (ljust ms 3 48) \<le> 999"
    and t: "tdelta t = ?T * 1000"
    using assms by (auto simp: LRCTime_init_cases split: if_splits)
  have "0 \<le> ?T"
    using str_value_nonneg [of m] str_value_nonneg [of s] str_value_nonneg [of "ljust ms 3 48"]
    by simp
  moreover have "?T < 86400000000000000" using c by simp
  ultimately show ?thesis using t by blast
qed

text \<open>
  Where \<^verbatim>\<open>total_milliseconds\<close> is exact. The stored time of an accepted timestamp is a
  whole number of milliseconds, at most 86399999999999999. \<^verbatim>\<open>from_total_milliseconds\<close> gives
  every accepted timestamp back from its exact total of milliseconds. The floating-point
  computation of \<^verbatim>\<open>total_milliseconds\<close> returns the exact total for every timestamp below
  4398046511104011 milliseconds (\<open>1000 \<times> 2\<^sup>4\<^sup>2 + 11\<close>, minutes up to 73300775184), and there the
  round trip gives the timestamp back.
\<close>

lemma total_milliseconds_exact_wide:
  assumes "tdelta t = T * 1000" "0 \<le> T" "T < 4398046511104011"
  shows "total_milliseconds t = T"
proof (cases "T < 1000 * 2 ^ 42")
  case True
  with ms_exact_wide [OF assms(2)] show ?thesis
    by (simp add: total_milliseconds_def total_seconds_def assms(1))
next
  case False
  then have "4398046511104000 \<le> T" by simp
  from ms_exact_edge [OF this assms(3)] show ?thesis
    by (simp add: total_milliseconds_def total_seconds_def assms(1))
qed

lemma from_total_milliseconds_exact_total:
  assumes "LRCTime_init m s ms = Inr t"
  shows "from_total_milliseconds (exact_total_milliseconds t) = Inr t"
proof -
  obtain T where T: "0 \<le> T" "T < 86400000000000000" "tdelta t = T * 1000"
    using LRCTime_init_tdelta [OF assms] by blast
  have "from_total_milliseconds T = Inr \<lparr>tdelta = T * 1000\<rparr>"
    using T(1,2) by (rule from_total_milliseconds_exact)
  moreover have "\<lparr>tdelta = T * 1000\<rparr> = t" using T(3) by simp
  moreover have "exact_total_milliseconds t = T" by (simp add: exact_total_milliseconds_def T(3))
  ultimately show ?thesis by simp
qed

lemma from_total_milliseconds_round_trip:
  assumes "LRCTime_init m s ms = Inr t" and "exact_total_milliseconds t < 4398046511104011"
  shows "total_milliseconds t = exact_total_milliseconds t"
    and "from_total_milliseconds (total_milliseconds t) = Inr t"
proof -
  obtain T where T: "0 \<le> T" "tdelta t = T * 1000"
    using LRCTime_init_tdelta [OF assms(1)] by blast
  have e: "exact_total_milliseconds t = T" by (simp add: exact_total_milliseconds_def T(2))
  with assms(2) have b: "T < 4398046511104011" by simp
  show tm: "total_milliseconds t = exact_total_milliseconds t"
    using total_milliseconds_exact_wide [OF T(2,1) b] e by simp
  show "from_total_milliseconds (total_milliseconds t) = Inr t"
    unfolding tm using assms(1) by (rule from_total_milliseconds_exact_total)
qed

text \<open>
  Claim C5: for every triple accepted by the constructor, \<^verbatim>\<open>from_total_milliseconds\<close>
  applied to \<^verbatim>\<open>total_milliseconds\<close> gives a timestamp equal to the original one. The code
  does not do this, since \<^verbatim>\<open>total_milliseconds\<close>, computed in floating point as
  \<^verbatim>\<open>round(self.time.total_seconds() * 1000)\<close>, is not always the total of milliseconds
  that its docstring promises. For \<^verbatim>\<open>LRCTime("73300775185", "04", "011")\<close>, the smallest
  such timestamp, it returns 4398046511104010 instead of 4398046511104011, and the round
  trip gives a timestamp that is not equal to the original. For the largest timestamp,
  \<^verbatim>\<open>LRCTime("1439999999999", "59", "999")\<close>, it returns 86400000000000000 instead of
  86399999999999999, and \<^verbatim>\<open>from_total_milliseconds\<close> raises \<^verbatim>\<open>OverflowError\<close>, although on
  the exact total it gives the timestamp back.
\<close>

theorem total_milliseconds_float_error:
  "LRCTime_init (ascii ''73300775185'') (ascii ''04'') (ascii ''011'')
     = Inr \<lparr>tdelta = 4398046511104011000\<rparr>
   \<and> exact_total_milliseconds \<lparr>tdelta = 4398046511104011000\<rparr> = 4398046511104011
   \<and> total_milliseconds \<lparr>tdelta = 4398046511104011000\<rparr> = 4398046511104010
   \<and> from_total_milliseconds (total_milliseconds \<lparr>tdelta = 4398046511104011000\<rparr>)
       = Inr \<lparr>tdelta = 4398046511104010000\<rparr>
   \<and> LRCTime_eq \<lparr>tdelta = 4398046511104010000\<rparr> \<lparr>tdelta = 4398046511104011000\<rparr> = False
   \<and> LRCTime_init (ascii ''1439999999999'') (ascii ''59'') (ascii ''999'')
       = Inr \<lparr>tdelta = 86399999999999999000\<rparr>
   \<and> exact_total_milliseconds \<lparr>tdelta = 86399999999999999000\<rparr> = 86399999999999999
   \<and> total_milliseconds \<lparr>tdelta = 86399999999999999000\<rparr> = 86400000000000000
   \<and> from_total_milliseconds (total_milliseconds \<lparr>tdelta = 86399999999999999000\<rparr>)
       = Inl OverflowError
   \<and> from_total_milliseconds (exact_total_milliseconds \<lparr>tdelta = 86399999999999999000\<rparr>)
       = Inr \<lparr>tdelta = 86399999999999999000\<rparr>"
proof -
  have i1: "LRCTime_init (ascii ''73300775185'') (ascii ''04'') (ascii ''011'')
     = Inr \<lparr>tdelta = 4398046511104011000\<rparr>"
    by (simp add: LRCTime_init_cases str_eval)
  have x1: "exact_total_milliseconds \<lparr>tdelta = 4398046511104011000\<rparr> = 4398046511104011"
    by (simp add: exact_total_milliseconds_def)
  have t1: "total_milliseconds \<lparr>tdelta = 4398046511104011000\<rparr> = 4398046511104010"
    by code_simp
  have "from_total_milliseconds 4398046511104010 = Inr \<lparr>tdelta = 4398046511104010 * 1000\<rparr>"
    by (rule from_total_milliseconds_exact) simp_all
  then have f1: "from_total_milliseconds (total_milliseconds \<lparr>tdelta = 4398046511104011000\<rparr>)
       = Inr \<lparr>tdelta = 4398046511104010000\<rparr>"
    by (simp add: t1)
  have n1: "LRCTime_eq \<lparr>tdelta = 4398046511104010000\<rparr> \<lparr>tdelta = 4398046511104011000\<rparr> = False"
    by (simp add: LRCTime_eq_def)
  have i2: "LRCTime_init (ascii ''1439999999999'') (ascii ''59'') (ascii ''999'')
     = Inr \<lparr>tdelta = 86399999999999999000\<rparr>"
    by (simp add: LRCTime_init_cases str_eval)
  have x2: "exact_total_milliseconds \<lparr>tdelta = 86399999999999999000\<rparr> = 86399999999999999"
    by (simp add: exact_total_milliseconds_def)
  have t2: "total_milliseconds \<lparr>tdelta = 86399999999999999000\<rparr> = 86400000000000000"
    by code_simp
  have "from_total_milliseconds 86400000000000000 = Inl OverflowError"
    by (simp add: from_total_milliseconds_def format_d_def digits.simps LRCTime_init_cases str_eval)
  then have f2: "from_total_milliseconds (total_milliseconds \<lparr>tdelta = 86399999999999999000\<rparr>)
       = Inl OverflowError"
    by (simp add: t2)
  have r2: "from_total_milliseconds (exact_total_milliseconds \<lparr>tdelta = 86399999999999999000\<rparr>)
       = Inr \<lparr>tdelta = 86399999999999999000\<rparr>"
    using i2 by (rule from_total_milliseconds_exact_total)
  from i1 x1 t1 f1 n1 i2 x2 t2 f2 r2 show ?thesis by (intro conjI)
qed

subsection \<open>Evaluation and the merge\<close>

lemmas parse_eval = parse_def splitlines_def is_linebreak_def strip_def isspace_def
  space_ranges_def parse_line_def tag_match_def is_ascii_letter_def time_match_at_def
  LRCTime_init_cases str_eval decimal_value_def decimal_zeros_def Let_def

lemma total_milliseconds_eval:
  "td mod 1000 = 0 \<Longrightarrow> 0 \<le> td \<Longrightarrow> td < 2251799813685248000 \<Longrightarrow>
   total_milliseconds \<lparr>tdelta = td\<rparr> = td div 1000"
  by (rule total_milliseconds_exact) auto

lemma empty_line_value: "empty_line = Inr \<lparr>time = \<lparr>tdelta = 0\<rparr>, texts = []\<rparr>"
proof -
  have "LRCTime_init [48, 48] [48, 48] [48, 48, 48] = Inr \<lparr>tdelta = 0\<rparr>"
    by (simp add: LRCTime_init_cases str_eval)
  then show ?thesis by (simp add: empty_line_def)
qed

lemma map_err_total: "(\<And>x. x \<in> set xs \<Longrightarrow> f x = Inr (g x)) \<Longrightarrow> map_err f xs = Inr (map g xs)"
  by (induction xs) auto

subsection \<open>Sorting by a key\<close>

lemma insort_lt_key: "insort_lt (\<lambda>a b. f a < f b) x ys = insort_key f x ys"
  for f :: "'a \<Rightarrow> int"
  by (induction ys) auto

lemma list_sort_key: "list_sort (\<lambda>a b. f a < f b) xs = sort_key f xs"
  for f :: "'a \<Rightarrow> int"
  by (induction xs) (simp_all add: list_sort_def insort_lt_key)

lemma LyricLine_sort: "list_sort LyricLine_lt = sort_key (\<lambda>l. tdelta (time l))"
proof
  fix xs
  have "LyricLine_lt = (\<lambda>a b. tdelta (time a) < tdelta (time b))"
    by (intro ext) (simp add: LyricLine_lt_def LRCTime_lt_def)
  then show "list_sort LyricLine_lt xs = sort_key (\<lambda>l. tdelta (time l)) xs"
    using list_sort_key [of "\<lambda>l. tdelta (time l)" xs] by simp
qed

lemma CombinedLyricLine_sort: "list_sort CombinedLyricLine_lt = sort_key (\<lambda>c. tdelta (ctime c))"
proof
  fix xs
  have "CombinedLyricLine_lt = (\<lambda>a b. tdelta (ctime a) < tdelta (ctime b))"
    by (intro ext) (simp add: CombinedLyricLine_lt_def LRCTime_lt_def)
  then show "list_sort CombinedLyricLine_lt xs = sort_key (\<lambda>c. tdelta (ctime c)) xs"
    using list_sort_key [of "\<lambda>c. tdelta (ctime c)" xs] by simp
qed

subsection \<open>The merge\<close>

lemma available_tran_first:
  "(case available_tran orig interval ls of [] \<Rightarrow> [] | x # _ \<Rightarrow> [x]) = first_candidate orig interval ls"
  by (induction ls) (auto simp: available_tran_def first_candidate_def within_interval_def)

lemma available_trans_concat:
  "available_trans orig interval docs = concat (map (\<lambda>d. first_candidate orig interval (lines d)) docs)"
proof (induction docs)
  case Nil
  then show ?case by simp
next
  case (Cons d docs)
  show ?case
    using available_tran_first [of orig interval "lines d"] Cons.IH
    by (simp split: list.splits)
qed

lemma merge_line_value:
  "merge_line orig interval docs =
     Inr \<lparr>origin = orig, ctime = time orig, trans = merged_trans orig interval docs\<rparr>"
  by (simp add: merge_line_def Let_def empty_line_value CombinedLyricLine_init_def
      available_trans_concat merged_trans_def placeholder_def)

lemma parse_with_translate_value:
  assumes "parse orig = Inr po" "map_err parse ts = Inr pts"
  shows "parse_with_translate orig interval ts =
     Inr \<lparr>lines = map (\<lambda>l. \<lparr>origin = l, ctime = time l,
                              trans = merged_trans l interval (map sort_lines pts)\<rparr>)
                    (list_sort LyricLine_lt (lines po)),
          meta = meta po\<rparr>"
proof -
  let ?m = "\<lambda>l. \<lparr>origin = l, ctime = time l, trans = merged_trans l interval (map sort_lines pts)\<rparr>"
  let ?so = "list_sort LyricLine_lt (lines po)"
  have me: "map_err (\<lambda>l. merge_line l interval (map sort_lines pts)) ?so = Inr (map ?m ?so)"
    by (rule map_err_total) (simp add: merge_line_value)
  have "sorted (map (\<lambda>c. tdelta (ctime c)) (map ?m ?so))"
    by (simp add: comp_def LyricLine_sort)
  then have "list_sort CombinedLyricLine_lt (map ?m ?so) = map ?m ?so"
    unfolding CombinedLyricLine_sort by (rule sort_key_id_if_sorted)
  then show ?thesis
    using assms me by (simp add: parse_with_translate_def sort_lines_def Let_def)
qed

subsection \<open>parse\_with\_translate\<close>

lemma set_list_sort_lines: "set (list_sort LyricLine_lt xs) = set xs"
  by (simp add: LyricLine_sort)

lemma available_tran_sorted_empty:
  "available_tran l interval (lines (sort_lines d)) = [] \<longleftrightarrow> available_tran l interval (lines d) = []"
  by (simp add: available_tran_def sort_lines_def filter_empty_conv set_list_sort_lines)

lemma first_candidate_empty:
  "first_candidate l interval ls = [] \<longleftrightarrow> available_tran l interval ls = []"
  using available_tran_first [of l interval ls] by (cases "available_tran l interval ls") auto

lemma merged_trans_placeholder:
  assumes "\<forall>d\<in>set docs. available_tran l interval (lines d) = []"
  shows "merged_trans l interval docs = [\<lparr>time = time l, texts = []\<rparr>]"
proof -
  have "concat (map (\<lambda>d. first_candidate l interval (lines d)) docs) = []"
    using assms by (simp add: first_candidate_empty)
  then show ?thesis by (simp add: merged_trans_def placeholder_def)
qed

text \<open>
  Claim C1. In \<^verbatim>\<open>parse_with_translate\<close> the candidates of an origin line in a translation
  document are exactly the lines of the document whose total milliseconds differ from
  those of the origin line by at most the interval; the line selected from a document is
  the first of its candidates, if there is one; and the result of the whole function
  attaches to every origin line, document by document, the first candidate of the
  time-sorted document. The witness has a later candidate that is nearer in time.
\<close>

theorem parse_with_translate_first_candidate:
  "set (available_tran l interval ls) = {x \<in> set ls. within_interval l interval x}
   \<and> first_candidate l interval ls = take 1 (available_tran l interval ls)
   \<and> (parse orig = Inr po \<and> map_err parse ts = Inr pts \<longrightarrow>
        parse_with_translate orig interval ts =
          Inr \<lparr>lines = map (\<lambda>l. \<lparr>origin = l, ctime = time l,
                                   trans = merged_trans l interval (map sort_lines pts)\<rparr>)
                         (list_sort LyricLine_lt (lines po)),
               meta = meta po\<rparr>)"
proof (intro conjI impI)
  show "set (available_tran l interval ls) = {x \<in> set ls. within_interval l interval x}"
    by (auto simp: available_tran_def within_interval_def)
  show "first_candidate l interval ls = take 1 (available_tran l interval ls)"
    using available_tran_first [of l interval ls] by (cases "available_tran l interval ls") auto
  assume "parse orig = Inr po \<and> map_err parse ts = Inr pts"
  then show "parse_with_translate orig interval ts =
          Inr \<lparr>lines = map (\<lambda>l. \<lparr>origin = l, ctime = time l,
                                   trans = merged_trans l interval (map sort_lines pts)\<rparr>)
                         (list_sort LyricLine_lt (lines po)),
               meta = meta po\<rparr>"
    by (simp add: parse_with_translate_value)
qed

lemma parse_ex_origin:
  "parse (ascii ''[00:01.000]a'') =
     Inr \<lparr>lines = [\<lparr>time = \<lparr>tdelta = 1000000\<rparr>, texts = ascii ''a''\<rparr>], meta = []\<rparr>"
  by (simp add: parse_eval)

lemma parse_ex_trans:
  "parse (ascii ''[00:01.000]y'' @ 10 # ascii ''[00:00.900]x'') =
     Inr \<lparr>lines = [\<lparr>time = \<lparr>tdelta = 1000000\<rparr>, texts = ascii ''y''\<rparr>,
                   \<lparr>time = \<lparr>tdelta = 900000\<rparr>, texts = ascii ''x''\<rparr>], meta = []\<rparr>"
  by (simp add: parse_eval)

lemmas merge_eval = merged_trans_def first_candidate_def within_interval_def placeholder_def
  sort_lines_def list_sort_def LyricLine_lt_def LRCTime_lt_def total_milliseconds_eval

theorem parse_with_translate_first_candidate_witness:
  "parse_with_translate (ascii ''[00:01.000]a'') 100
       [ascii ''[00:01.000]y'' @ 10 # ascii ''[00:00.900]x''] =
     Inr \<lparr>lines = [\<lparr>origin = \<lparr>time = \<lparr>tdelta = 1000000\<rparr>, texts = ascii ''a''\<rparr>,
                    ctime = \<lparr>tdelta = 1000000\<rparr>,
                    trans = [\<lparr>time = \<lparr>tdelta = 1000000\<rparr>, texts = ascii ''x''\<rparr>]\<rparr>],
          meta = []\<rparr>"
proof -
  have m: "map_err parse [ascii ''[00:01.000]y'' @ 10 # ascii ''[00:00.900]x''] =
     Inr [\<lparr>lines = [\<lparr>time = \<lparr>tdelta = 1000000\<rparr>, texts = ascii ''y''\<rparr>,
                   \<lparr>time = \<lparr>tdelta = 900000\<rparr>, texts = ascii ''x''\<rparr>], meta = []\<rparr>]"
    by (simp add: parse_ex_trans)
  have "parse_with_translate (ascii ''[00:01.000]a'') 100
       [ascii ''[00:01.000]y'' @ 10 # ascii ''[00:00.900]x''] =
     Inr \<lparr>lines = map (\<lambda>l. \<lparr>origin = l, ctime = time l,
              trans = merged_trans l 100 (map sort_lines
                [\<lparr>lines = [\<lparr>time = \<lparr>tdelta = 1000000\<rparr>, texts = ascii ''y''\<rparr>,
                   \<lparr>time = \<lparr>tdelta = 900000\<rparr>, texts = ascii ''x''\<rparr>], meta = []\<rparr>])\<rparr>)
            (list_sort LyricLine_lt [\<lparr>time = \<lparr>tdelta = 1000000\<rparr>, texts = ascii ''a''\<rparr>]),
          meta = []\<rparr>"
    using parse_with_translate_first_candidate
      [where orig = "ascii ''[00:01.000]a''" and interval = 100
         and ts = "[ascii ''[00:01.000]y'' @ 10 # ascii ''[00:00.900]x'']"
         and po = "\<lparr>lines = [\<lparr>time = \<lparr>tdelta = 1000000\<rparr>, texts = ascii ''a''\<rparr>], meta = []\<rparr>"
         and pts = "[\<lparr>lines = [\<lparr>time = \<lparr>tdelta = 1000000\<rparr>, texts = ascii ''y''\<rparr>,
                   \<lparr>time = \<lparr>tdelta = 900000\<rparr>, texts = ascii ''x''\<rparr>], meta = []\<rparr>]",
       THEN conjunct2, THEN conjunct2]
      parse_ex_origin m
    by simp
  then show ?thesis by (simp add: merge_eval)
qed


text \<open>
  Claim C2. The window is inclusive: a translation line whose distance from the origin
  line is exactly the interval is a candidate, and one at the interval plus one
  millisecond is not.
\<close>

theorem available_tran_boundary:
  "(x \<in> set ls \<and> \<bar>total_milliseconds (time x) - total_milliseconds (time l)\<bar> = interval
      \<longrightarrow> x \<in> set (available_tran l interval ls))
   \<and> (\<bar>total_milliseconds (time x) - total_milliseconds (time l)\<bar> = interval + 1
      \<longrightarrow> x \<notin> set (available_tran l interval ls))"
  by (simp add: available_tran_def)

theorem available_tran_boundary_witness:
  "\<lparr>time = \<lparr>tdelta = 1100000\<rparr>, texts = ascii ''x''\<rparr>
     \<in> set (available_tran \<lparr>time = \<lparr>tdelta = 1000000\<rparr>, texts = ascii ''a''\<rparr> 100
          [\<lparr>time = \<lparr>tdelta = 1101000\<rparr>, texts = ascii ''y''\<rparr>,
           \<lparr>time = \<lparr>tdelta = 1100000\<rparr>, texts = ascii ''x''\<rparr>])
   \<and> \<lparr>time = \<lparr>tdelta = 1101000\<rparr>, texts = ascii ''y''\<rparr>
     \<notin> set (available_tran \<lparr>time = \<lparr>tdelta = 1000000\<rparr>, texts = ascii ''a''\<rparr> 100
          [\<lparr>time = \<lparr>tdelta = 1101000\<rparr>, texts = ascii ''y''\<rparr>,
           \<lparr>time = \<lparr>tdelta = 1100000\<rparr>, texts = ascii ''x''\<rparr>])"
proof -
  let ?l = "\<lparr>time = \<lparr>tdelta = 1000000\<rparr>, texts = ascii ''a''\<rparr>"
  let ?x = "\<lparr>time = \<lparr>tdelta = 1100000\<rparr>, texts = ascii ''x''\<rparr>"
  let ?y = "\<lparr>time = \<lparr>tdelta = 1101000\<rparr>, texts = ascii ''y''\<rparr>"
  have dx: "\<bar>total_milliseconds (time ?x) - total_milliseconds (time ?l)\<bar> = 100"
    by (simp add: total_milliseconds_eval)
  have dy: "\<bar>total_milliseconds (time ?y) - total_milliseconds (time ?l)\<bar> = 100 + 1"
    by (simp add: total_milliseconds_eval)
  have mem: "?x \<in> set [?y, ?x]" by simp
  from available_tran_boundary [of ?x "[?y, ?x]" ?l 100] mem dx
  have a: "?x \<in> set (available_tran ?l 100 [?y, ?x])" by blast
  from available_tran_boundary [of ?y "[?y, ?x]" ?l 100] dy
  have b: "?y \<notin> set (available_tran ?l 100 [?y, ?x])" by blast
  from a b show ?thesis by blast
qed

text \<open>
  Claim C3. The merge of an origin line never fails and keeps the origin line; when no
  document has a candidate, the combined line holds exactly one translation, the empty
  placeholder stamped with the time of the origin line. Whenever the texts parse,
  \<^verbatim>\<open>parse_with_translate\<close> returns a document whose combined lines are those of the origin
  lines, one for each, in time order.
\<close>

theorem merge_line_placeholder:
  "(\<exists>c. merge_line l interval docs = Inr c \<and> origin c = l \<and> ctime c = time l)
   \<and> ((\<forall>d\<in>set docs. available_tran l interval (lines d) = []) \<longrightarrow>
        merge_line l interval docs =
          Inr \<lparr>origin = l, ctime = time l, trans = [\<lparr>time = time l, texts = []\<rparr>]\<rparr>)
   \<and> (parse orig = Inr po \<and> map_err parse ts = Inr pts \<longrightarrow>
        (\<exists>doc. parse_with_translate orig interval ts = Inr doc
           \<and> map origin (lines doc) = list_sort LyricLine_lt (lines po)
           \<and> (\<forall>c\<in>set (lines doc).
                 (\<forall>d\<in>set pts. available_tran (origin c) interval (lines d) = []) \<longrightarrow>
                 trans c = [\<lparr>time = time (origin c), texts = []\<rparr>])))"
proof (intro conjI impI)
  show "\<exists>c. merge_line l interval docs = Inr c \<and> origin c = l \<and> ctime c = time l"
    by (simp add: merge_line_value)
  show "merge_line l interval docs =
          Inr \<lparr>origin = l, ctime = time l, trans = [\<lparr>time = time l, texts = []\<rparr>]\<rparr>"
    if "\<forall>d\<in>set docs. available_tran l interval (lines d) = []"
    using that by (simp add: merge_line_value merged_trans_placeholder)
  assume "parse orig = Inr po \<and> map_err parse ts = Inr pts"
  then have v: "parse_with_translate orig interval ts =
     Inr \<lparr>lines = map (\<lambda>l. \<lparr>origin = l, ctime = time l,
                              trans = merged_trans l interval (map sort_lines pts)\<rparr>)
                    (list_sort LyricLine_lt (lines po)),
          meta = meta po\<rparr>"
    by (simp add: parse_with_translate_value)
  have "trans c = [\<lparr>time = time (origin c), texts = []\<rparr>]"
    if c: "c \<in> set (map (\<lambda>l. \<lparr>origin = l, ctime = time l,
                              trans = merged_trans l interval (map sort_lines pts)\<rparr>)
                    (list_sort LyricLine_lt (lines po)))"
      and e: "\<forall>d\<in>set pts. available_tran (origin c) interval (lines d) = []" for c
  proof -
    from c obtain l' where c': "c = \<lparr>origin = l', ctime = time l',
                              trans = merged_trans l' interval (map sort_lines pts)\<rparr>"
      by auto
    have "\<forall>d\<in>set (map sort_lines pts). available_tran l' interval (lines d) = []"
      using e by (simp add: c' available_tran_sorted_empty)
    then show ?thesis by (simp add: c' merged_trans_placeholder)
  qed
  with v show "\<exists>doc. parse_with_translate orig interval ts = Inr doc
           \<and> map origin (lines doc) = list_sort LyricLine_lt (lines po)
           \<and> (\<forall>c\<in>set (lines doc).
                 (\<forall>d\<in>set pts. available_tran (origin c) interval (lines d) = []) \<longrightarrow>
                 trans c = [\<lparr>time = time (origin c), texts = []\<rparr>])"
    by (simp add: comp_def)
qed

lemma parse_ex_far:
  "parse (ascii ''[00:02.000]z'') =
     Inr \<lparr>lines = [\<lparr>time = \<lparr>tdelta = 2000000\<rparr>, texts = ascii ''z''\<rparr>], meta = []\<rparr>"
  by (simp add: parse_eval)

theorem merge_line_placeholder_witness:
  "parse_with_translate (ascii ''[00:01.000]a'') 100 [ascii ''[00:02.000]z''] =
     Inr \<lparr>lines = [\<lparr>origin = \<lparr>time = \<lparr>tdelta = 1000000\<rparr>, texts = ascii ''a''\<rparr>,
                    ctime = \<lparr>tdelta = 1000000\<rparr>,
                    trans = [\<lparr>time = \<lparr>tdelta = 1000000\<rparr>, texts = []\<rparr>]\<rparr>],
          meta = []\<rparr>"
proof -
  let ?po = "\<lparr>lines = [\<lparr>time = \<lparr>tdelta = 1000000\<rparr>, texts = ascii ''a''\<rparr>], meta = []\<rparr>"
  let ?pt = "\<lparr>lines = [\<lparr>time = \<lparr>tdelta = 2000000\<rparr>, texts = ascii ''z''\<rparr>], meta = []\<rparr>"
  have m: "map_err parse [ascii ''[00:02.000]z''] = Inr [?pt]"
    by (simp add: parse_ex_far)
  from merge_line_placeholder
      [where orig = "ascii ''[00:01.000]a''" and interval = 100 and ts = "[ascii ''[00:02.000]z'']"
         and po = ?po and pts = "[?pt]", THEN conjunct2, THEN conjunct2]
    parse_ex_origin m
  obtain doc where d: "parse_with_translate (ascii ''[00:01.000]a'') 100 [ascii ''[00:02.000]z'']
        = Inr doc"
    and o: "map origin (lines doc) = list_sort LyricLine_lt (lines ?po)"
    and t: "\<forall>c\<in>set (lines doc).
                 (\<forall>d\<in>set [?pt]. available_tran (origin c) 100 (lines d) = []) \<longrightarrow>
                 trans c = [\<lparr>time = time (origin c), texts = []\<rparr>]"
    by blast
  from o obtain c where l: "lines doc = [c]"
    and oc: "origin c = \<lparr>time = \<lparr>tdelta = 1000000\<rparr>, texts = ascii ''a''\<rparr>"
    by (auto simp: list_sort_def)
  have "available_tran (origin c) 100 (lines ?pt) = []"
    by (simp add: oc available_tran_def total_milliseconds_eval)
  with t l have tc: "trans c = [\<lparr>time = \<lparr>tdelta = 1000000\<rparr>, texts = []\<rparr>]"
    by (simp add: oc)
  have v: "parse_with_translate (ascii ''[00:01.000]a'') 100 [ascii ''[00:02.000]z''] =
     Inr \<lparr>lines = map (\<lambda>l. \<lparr>origin = l, ctime = time l,
                              trans = merged_trans l 100 (map sort_lines [?pt])\<rparr>)
                    (list_sort LyricLine_lt (lines ?po)),
          meta = meta ?po\<rparr>"
    using parse_ex_origin m by (rule parse_with_translate_value)
  from v d l oc tc show ?thesis
    by (auto simp: list_sort_def)
qed

lemmas str_fmt_eval = LRCTime_str_def LyricLine_str_def CombinedLyricLine_str_def
  minutes_def seconds_def milliseconds_def total_milliseconds_eval format_d_def digits.simps
  int_max_str_digits_def rjust_def replicate_numeral ascii_def Let_def

lemma parse_ex_hello:
  "parse (ascii ''[00:12.340]Hello world'') =
     Inr \<lparr>lines = [\<lparr>time = \<lparr>tdelta = 12340000\<rparr>, texts = ascii ''Hello world''\<rparr>], meta = []\<rparr>"
  by (simp add: parse_eval)

lemma hello_str:
  "CombinedLyricLine_str
     \<lparr>origin = \<lparr>time = \<lparr>tdelta = 12340000\<rparr>, texts = ascii ''Hello world''\<rparr>,
      ctime = \<lparr>tdelta = 12340000\<rparr>,
      trans = [\<lparr>time = \<lparr>tdelta = 12340000\<rparr>, texts = []\<rparr>]\<rparr>
   = Inr (ascii ''[00:12.340]Hello world'')"
  by (simp add: str_fmt_eval)

text \<open>
  Claim C6, amended. With the origin text \<^verbatim>\<open>"[00:12.340]Hello world"\<close>, the interval 0
  and translations without a line at 12340 milliseconds, the result has one combined
  line, and its string form is \<^verbatim>\<open>"[00:12.340]Hello world"\<close>: the placeholder has an empty
  text and is left out of the string.
\<close>

theorem hello_world_no_candidate:
  assumes "map_err parse ts = Inr pts"
    and "\<forall>d\<in>set pts. available_tran
           \<lparr>time = \<lparr>tdelta = 12340000\<rparr>, texts = ascii ''Hello world''\<rparr> 0 (lines d) = []"
  shows "\<exists>c. parse_with_translate (ascii ''[00:12.340]Hello world'') 0 ts
                = Inr \<lparr>lines = [c], meta = []\<rparr>
           \<and> CombinedLyricLine_str c = Inr (ascii ''[00:12.340]Hello world'')"
proof -
  let ?l = "\<lparr>time = \<lparr>tdelta = 12340000\<rparr>, texts = ascii ''Hello world''\<rparr>"
  have "\<forall>d\<in>set (map sort_lines pts). available_tran ?l 0 (lines d) = []"
    using assms(2) by (simp add: available_tran_sorted_empty)
  then have mt: "merged_trans ?l 0 (map sort_lines pts) = [\<lparr>time = time ?l, texts = []\<rparr>]"
    by (rule merged_trans_placeholder)
  have "parse_with_translate (ascii ''[00:12.340]Hello world'') 0 ts =
     Inr \<lparr>lines = [\<lparr>origin = ?l, ctime = \<lparr>tdelta = 12340000\<rparr>,
                    trans = [\<lparr>time = \<lparr>tdelta = 12340000\<rparr>, texts = []\<rparr>]\<rparr>], meta = []\<rparr>"
    using parse_with_translate_value [OF parse_ex_hello assms(1), of 0] mt
    by (simp add: list_sort_def)
  with hello_str show ?thesis by blast
qed

theorem hello_world_no_candidate_witness:
  "map_err parse [ascii ''[00:12.341]Bonjour''] =
     Inr [\<lparr>lines = [\<lparr>time = \<lparr>tdelta = 12341000\<rparr>, texts = ascii ''Bonjour''\<rparr>], meta = []\<rparr>]
   \<and> (\<exists>c. parse_with_translate (ascii ''[00:12.340]Hello world'') 0 [ascii ''[00:12.341]Bonjour'']
                = Inr \<lparr>lines = [c], meta = []\<rparr>
           \<and> CombinedLyricLine_str c = Inr (ascii ''[00:12.340]Hello world''))"
proof -
  let ?pt = "\<lparr>lines = [\<lparr>time = \<lparr>tdelta = 12341000\<rparr>, texts = ascii ''Bonjour''\<rparr>], meta = []\<rparr>"
  have m: "map_err parse [ascii ''[00:12.341]Bonjour''] = Inr [?pt]"
    by (simp add: parse_eval)
  have e: "\<forall>d\<in>set [?pt]. available_tran
           \<lparr>time = \<lparr>tdelta = 12340000\<rparr>, texts = ascii ''Hello world''\<rparr> 0 (lines d) = []"
    by (simp add: available_tran_def total_milliseconds_eval)
  from m hello_world_no_candidate [OF m e] show ?thesis by blast
qed

text \<open>
  Claim C6 as stated fails: the string form has no second line.
\<close>

theorem hello_world_no_candidate_counterexample:
  "parse_with_translate (ascii ''[00:12.340]Hello world'') 0 [] =
     Inr \<lparr>lines = [\<lparr>origin = \<lparr>time = \<lparr>tdelta = 12340000\<rparr>, texts = ascii ''Hello world''\<rparr>,
                    ctime = \<lparr>tdelta = 12340000\<rparr>,
                    trans = [\<lparr>time = \<lparr>tdelta = 12340000\<rparr>, texts = []\<rparr>]\<rparr>],
          meta = []\<rparr>
   \<and> CombinedLyricLine_str
        \<lparr>origin = \<lparr>time = \<lparr>tdelta = 12340000\<rparr>, texts = ascii ''Hello world''\<rparr>,
         ctime = \<lparr>tdelta = 12340000\<rparr>,
         trans = [\<lparr>time = \<lparr>tdelta = 12340000\<rparr>, texts = []\<rparr>]\<rparr>
       = Inr (ascii ''[00:12.340]Hello world'')
   \<and> ascii ''[00:12.340]Hello world'' \<noteq> ascii ''[00:12.340]Hello world'' @ 10 # ascii ''[00:12.340]''"
proof -
  have m: "map_err parse [] = Inr []" by simp
  have "parse_with_translate (ascii ''[00:12.340]Hello world'') 0 [] =
     Inr \<lparr>lines = [\<lparr>origin = \<lparr>time = \<lparr>tdelta = 12340000\<rparr>, texts = ascii ''Hello world''\<rparr>,
                    ctime = \<lparr>tdelta = 12340000\<rparr>,
                    trans = [\<lparr>time = \<lparr>tdelta = 12340000\<rparr>, texts = []\<rparr>]\<rparr>],
          meta = []\<rparr>"
    using parse_with_translate_value [OF parse_ex_hello m, of 0]
    by (simp add: merge_eval)
  with hello_str show ?thesis by simp
qed

subsection \<open>parse\<close>

lemma not_isdecimal_bracket: "\<not> isdecimal 93"
  by (simp add: isdecimal_def decimal_value_def decimal_zeros_def)

lemma length2: "length m = 2 \<longleftrightarrow> (\<exists>a b. m = [a, b])"
  by (cases m; cases "tl m") auto

lemma time_match_at_stamp:
  assumes "timestamp_fields m s f"
  shows "time_match_at (stamp m s f @ rest) = Some (m, s, f, rest)"
proof -
  from assms obtain a b c d where m: "m = [a, b]" and s: "s = [c, d]"
    by (auto simp: timestamp_fields_def length2)
  have f: "\<forall>x\<in>set f. isdecimal x" "1 \<le> length f" "length f \<le> 3"
    using assms by (simp_all add: timestamp_fields_def list_all_iff)
  have tw: "takeWhile isdecimal (f @ 93 # rest) = f"
    using f(1) by (simp add: takeWhile_append2 not_isdecimal_bracket)
  have dec: "isdecimal a" "isdecimal b" "isdecimal c" "isdecimal d"
    using assms by (simp_all add: timestamp_fields_def m s)
  show ?thesis
    using f(2,3) dec by (simp add: time_match_at_def stamp_def m s tw)
qed

lemma time_match_at_Some:
  assumes "time_match_at t = Some (m, s, f, rest)"
  shows "timestamp_fields m s f \<and> t = stamp m s f @ rest"
proof -
  from assms obtain c0 a b c1 c d c2 r where t: "t = c0 # a # b # c1 # c # d # c2 # r"
    by (auto simp: time_match_at_def split: list.splits)
  let ?ms = "takeWhile isdecimal r"
  from assms have h: "c0 = 91" "isdecimal a" "isdecimal b" "c1 = 58" "isdecimal c" "isdecimal d"
    "c2 = 46" "1 \<le> length ?ms" "length ?ms \<le> 3"
    by (auto simp: time_match_at_def t Let_def split: if_splits)
  from assms h obtain e where dr: "drop (length ?ms) r = e # rest" and e: "e = 93"
    and g: "m = [a, b]" "s = [c, d]" "f = ?ms"
    by (auto simp: time_match_at_def t Let_def split: if_splits list.splits)
  have "r = ?ms @ dropWhile isdecimal r" by simp
  also have "dropWhile isdecimal r = drop (length ?ms) r" by (rule dropWhile_eq_drop)
  finally have r: "r = ?ms @ 93 # rest" using dr e by simp
  have "list_all isdecimal ?ms" by (auto simp: list_all_iff dest: set_takeWhileD)
  with h g have "timestamp_fields m s f" by (simp add: timestamp_fields_def)
  moreover have "t = stamp m s f @ rest"
    using r h g by (simp add: t stamp_def)
  ultimately show ?thesis by simp
qed

lemma find_time_match:
  assumes "time_match_at t = Some (m, s, f, rest)"
  shows "find_time t = Some (m, s, f, takeWhile (\<lambda>x. x \<noteq> 10) rest)"
proof (cases t)
  case Nil
  with assms show ?thesis by (simp add: time_match_at_def)
next
  case (Cons c cs)
  with assms show ?thesis by simp
qed

lemma find_time_skip:
  assumes "\<forall>i<length pre. time_match_at (drop i (pre @ t)) = None"
  shows "find_time (pre @ t) = find_time t"
  using assms
proof (induction pre)
  case Nil
  then show ?case by simp
next
  case (Cons c pre)
  have "time_match_at (c # pre @ t) = None" using Cons.prems by force
  moreover have "\<forall>i<length pre. time_match_at (drop i (pre @ t)) = None"
  proof (intro allI impI)
    fix i assume "i < length pre"
    then have "Suc i < length (c # pre)" by simp
    with Cons.prems have "time_match_at (drop (Suc i) ((c # pre) @ t)) = None" by blast
    then show "time_match_at (drop i (pre @ t)) = None" by simp
  qed
  ultimately show ?case using Cons.IH by simp
qed

lemma find_time_none:
  assumes "\<forall>i\<le>length t. time_match_at (drop i t) = None"
  shows "find_time t = None"
proof -
  have "find_time (t @ []) = find_time []"
    using assms by (intro find_time_skip) auto
  then show ?thesis by simp
qed

lemma int_of_digits_bound:
  "int_of_digits acc s = Some n \<Longrightarrow> 0 \<le> acc \<Longrightarrow> n < (acc + 1) * 10 ^ length s"
proof (induction s arbitrary: acc)
  case Nil
  then show ?case by simp
next
  case (Cons c cs)
  from Cons.prems obtain d where d: "decimal_value c = Some d"
    and r: "int_of_digits (10 * acc + int d) cs = Some n"
    by (auto split: option.splits)
  have "d < 10" using d by (rule decimal_value_less)
  from Cons.IH [OF r] Cons.prems(2) have "n < (10 * acc + int d + 1) * 10 ^ length cs" by simp
  also have "\<dots> \<le> (10 * (acc + 1)) * 10 ^ length cs"
    using \<open>d < 10\<close> by (intro mult_right_mono) auto
  finally show ?case by (simp add: algebra_simps)
qed

lemma str_value_bound: "list_all isdecimal s \<Longrightarrow> str_value s < 10 ^ length s"
proof -
  assume "list_all isdecimal s"
  then obtain n where n: "int_of_digits 0 s = Some n"
    using int_of_digits_None [of 0 s] by (cases "int_of_digits 0 s") auto
  from int_of_digits_bound [OF n] show ?thesis by (simp add: str_value_def n)
qed

lemma set_strip: "set (strip s) \<subseteq> set s"
proof -
  have "set (strip s) \<subseteq> set (dropWhile isspace s)"
    unfolding strip_def using set_dropWhileD [of _ isspace "rev (dropWhile isspace s)"] by auto
  also have "\<dots> \<subseteq> set s" using set_dropWhileD [of _ isspace s] by auto
  finally show ?thesis .
qed

lemma LRCTime_init_fields:
  assumes "timestamp_fields m s f"
  shows "LRCTime_init m s (ljust f 3 48) =
           (if str_value s \<le> 59
            then Inr \<lparr>tdelta = str_value m * 60000000 + str_value s * 1000000
                                + str_value (ljust f 3 48) * 1000\<rparr>
            else Inl ValueError)"
proof -
  have f3: "ljust (ljust f 3 48) 3 48 = ljust f 3 48" by (simp add: ljust_def)
  have lf: "length (ljust f 3 48) = 3" "list_all isdecimal (ljust f 3 48)"
    using assms by (auto simp: timestamp_fields_def ljust_def isdecimal_ascii list_all_iff)
  have d: "decimal_string m" "decimal_string s" "decimal_string (ljust f 3 48)"
    using assms lf
    by (auto simp: timestamp_fields_def decimal_string_def int_max_str_digits_def)
  have "str_value m < 10 ^ length m" using assms
    by (intro str_value_bound) (simp add: timestamp_fields_def)
  then have bm: "str_value m < 100" using assms by (simp add: timestamp_fields_def)
  have "str_value (ljust f 3 48) < 10 ^ length (ljust f 3 48)"
    using lf(2) by (rule str_value_bound)
  then have bf: "str_value (ljust f 3 48) < 1000" by (simp only: lf(1)) simp
  show ?thesis
    using d bm bf by (simp add: LRCTime_init_cases f3 not_le)
qed

lemma find_time_noneD:
  "find_time t = None \<Longrightarrow> i \<le> length t \<Longrightarrow> time_match_at (drop i t) = None"
proof (induction t arbitrary: i)
  case Nil
  then show ?case by (simp add: time_match_at_def)
next
  case (Cons c cs)
  from Cons.prems(1) have h: "time_match_at (c # cs) = None" "find_time cs = None"
    by (auto split: option.splits)
  show ?case
  proof (cases i)
    case 0
    with h show ?thesis by simp
  next
    case (Suc j)
    with Cons.prems(2) have "j \<le> length cs" by simp
    with Cons.IH h(2) Suc show ?thesis by simp
  qed
qed

lemma splitlines_from_no_newline:
  "10 \<notin> set cur \<Longrightarrow> l \<in> set (splitlines_from cur s) \<Longrightarrow> 10 \<notin> set l"
proof (induction cur s rule: splitlines_from.induct)
  case (1 cur)
  then show ?case by (auto split: if_splits)
next
  case (2 cur c cs)
  show ?case
  proof (cases "c = 13")
    case True
    show ?thesis
    proof (cases cs)
      case Nil
      with True "2.prems" show ?thesis by auto
    next
      case (Cons d ds)
      show ?thesis
      proof (cases "d = 10")
        case True
        with \<open>c = 13\<close> Cons "2.prems" "2.IH"(1) [OF \<open>c = 13\<close> Cons True] show ?thesis
          by auto
      next
        case False
        with \<open>c = 13\<close> Cons "2.prems" "2.IH"(2) [OF \<open>c = 13\<close> Cons False] show ?thesis
          by auto
      qed
    qed
  next
    case False
    show ?thesis
    proof (cases "is_linebreak c")
      case True
      with False "2.prems" "2.IH"(3) [OF False True] show ?thesis by auto
    next
      case nl: False
      then have "c \<noteq> 10" by (auto simp: is_linebreak_def)
      with False nl "2.prems" "2.IH"(4) [OF False nl] show ?thesis by auto
    qed
  qed
qed

lemma splitlines_no_newline: "l \<in> set (splitlines s) \<Longrightarrow> 10 \<notin> set l"
  unfolding splitlines_def by (rule splitlines_from_no_newline [of "[]"]) simp_all

text \<open>
  Claim C7, amended. Take a line of the text that is not a metadata tag. If the
  timestamp pattern matches nowhere in the trimmed line, the line is dropped: the lists
  are unchanged and nothing is raised. If the trimmed line is some text \<open>pre\<close>, a timestamp
  \<^verbatim>\<open>[MM:SS.fff]\<close> with one to three fractional digits and the text \<open>rest\<close>, with no match
  starting inside \<open>pre\<close>, and the seconds are at most 59, exactly one timed line is
  appended: its time is that of the timestamp with the fraction padded on the right to
  three digits, its text is \<open>rest\<close> unchanged. With seconds above 59 the constructor's
  \<^verbatim>\<open>ValueError\<close> leaves \<^verbatim>\<open>parse\<close>.
\<close>

theorem parse_line_timed:
  assumes "raw \<in> set (splitlines text)" and "tag_match (strip raw) = None"
  shows "((\<forall>i\<le>length (strip raw). time_match_at (drop i (strip raw)) = None)
            \<longrightarrow> parse_line raw acc = Inr acc)
       \<and> (strip raw = pre @ stamp m s f @ rest \<and> timestamp_fields m s f
            \<and> (\<forall>i<length pre. time_match_at (drop i (strip raw)) = None)
            \<longrightarrow> parse_line raw acc =
                  (if str_value s \<le> 59
                   then Inr (fst acc @
                          [\<lparr>time = \<lparr>tdelta = str_value m * 60000000 + str_value s * 1000000
                                              + str_value (ljust f 3 48) * 1000\<rparr>,
                            texts = rest\<rparr>], snd acc)
                   else Inl ValueError))"
proof (intro conjI impI)
  assume "\<forall>i\<le>length (strip raw). time_match_at (drop i (strip raw)) = None"
  then have "find_time (strip raw) = None" by (rule find_time_none)
  with assms(2) show "parse_line raw acc = Inr acc"
    by (simp add: parse_line_def)
next
  assume h: "strip raw = pre @ stamp m s f @ rest \<and> timestamp_fields m s f
            \<and> (\<forall>i<length pre. time_match_at (drop i (strip raw)) = None)"
  then have wf: "timestamp_fields m s f" and eq: "strip raw = pre @ stamp m s f @ rest" by simp_all
  have "10 \<notin> set raw" using assms(1) by (rule splitlines_no_newline)
  then have "10 \<notin> set (strip raw)" using set_strip [of raw] by auto
  then have "10 \<notin> set rest" by (simp add: eq)
  then have tw: "takeWhile (\<lambda>x. x \<noteq> 10) rest = rest"
    by (intro takeWhile_eq_all_conv [THEN iffD2]) auto
  from h have lm: "\<forall>i<length pre. time_match_at (drop i (pre @ stamp m s f @ rest)) = None"
    unfolding eq by blast
  have "find_time (pre @ stamp m s f @ rest) = find_time (stamp m s f @ rest)"
    using lm by (rule find_time_skip)
  also have "\<dots> = Some (m, s, f, takeWhile (\<lambda>x. x \<noteq> 10) rest)"
    using time_match_at_stamp [OF wf] by (rule find_time_match)
  finally have ft: "find_time (strip raw) = Some (m, s, f, rest)" by (simp add: eq tw)
  show "parse_line raw acc =
                  (if str_value s \<le> 59
                   then Inr (fst acc @
                          [\<lparr>time = \<lparr>tdelta = str_value m * 60000000 + str_value s * 1000000
                                              + str_value (ljust f 3 48) * 1000\<rparr>,
                            texts = rest\<rparr>], snd acc)
                   else Inl ValueError)"
    using assms(2) ft by (simp add: parse_line_def LRCTime_init_fields [OF wf])
qed

lemmas line_eval = parse_line_def strip_def isspace_def space_ranges_def tag_match_def
  is_ascii_letter_def time_match_at_def LRCTime_init_cases str_eval decimal_value_def
  decimal_zeros_def Let_def

theorem parse_line_timed_witness:
  "parse_line (ascii '' x[00:12.3]Hello[00:13.00] '') ([], []) =
     Inr ([\<lparr>time = \<lparr>tdelta = 12300000\<rparr>, texts = ascii ''Hello[00:13.00]''\<rparr>], [])
   \<and> parse_line (ascii ''[00:12.3456]Hello'') ([], []) = Inr ([], [])"
proof -
  have s1: "strip (ascii '' x[00:12.3]Hello[00:13.00] '')
              = ascii ''x'' @ stamp (ascii ''00'') (ascii ''12'') (ascii ''3'') @ ascii ''Hello[00:13.00]''"
    by (simp add: strip_def isspace_def space_ranges_def ascii_def stamp_def)
  have t1: "tag_match (strip (ascii '' x[00:12.3]Hello[00:13.00] '')) = None"
    by (simp add: s1) (simp add: tag_match_def ascii_def stamp_def)
  let ?text = "ascii '' x[00:12.3]Hello[00:13.00] '' @ 10 # ascii ''[00:12.3456]Hello''"
  have sp: "splitlines ?text = [ascii '' x[00:12.3]Hello[00:13.00] '', ascii ''[00:12.3456]Hello'']"
    by (simp add: splitlines_def is_linebreak_def ascii_def)
  have n1: "ascii '' x[00:12.3]Hello[00:13.00] '' \<in> set (splitlines ?text)"
    by (simp only: sp) simp
  have w1: "timestamp_fields (ascii ''00'') (ascii ''12'') (ascii ''3'')"
    by (simp add: timestamp_fields_def str_eval)
  have l1: "\<forall>i<length (ascii ''x''). time_match_at (drop i (strip (ascii '' x[00:12.3]Hello[00:13.00] ''))) = None"
    by (simp add: s1) (simp add: time_match_at_def ascii_def stamp_def)
  have a: "parse_line (ascii '' x[00:12.3]Hello[00:13.00] '') ([], []) =
     Inr ([\<lparr>time = \<lparr>tdelta = 12300000\<rparr>, texts = ascii ''Hello[00:13.00]''\<rparr>], [])"
    using parse_line_timed [OF n1 t1, where pre = "ascii ''x''" and m = "ascii ''00''"
        and s = "ascii ''12''" and f = "ascii ''3''" and rest = "ascii ''Hello[00:13.00]''"
        and acc = "([], [])", THEN conjunct2] s1 w1 l1
    by (simp add: str_eval)
  have s2: "strip (ascii ''[00:12.3456]Hello'') = ascii ''[00:12.3456]Hello''"
    by (simp add: strip_def isspace_def space_ranges_def ascii_def)
  have t2: "tag_match (strip (ascii ''[00:12.3456]Hello'')) = None"
    by (simp add: s2) (simp add: tag_match_def ascii_def is_ascii_letter_def)
  have n2: "ascii ''[00:12.3456]Hello'' \<in> set (splitlines ?text)"
    by (simp only: sp) simp
  have l2: "\<forall>i\<le>length (strip (ascii ''[00:12.3456]Hello'')).
              time_match_at (drop i (strip (ascii ''[00:12.3456]Hello''))) = None"
  proof -
    have "find_time (ascii ''[00:12.3456]Hello'') = None"
      by (simp add: ascii_def time_match_at_def isdecimal_def decimal_value_ascii
          decimal_value_def decimal_zeros_def)
    then show ?thesis unfolding s2 by (blast intro: find_time_noneD)
  qed
  have b: "parse_line (ascii ''[00:12.3456]Hello'') ([], []) = Inr ([], [])"
    using parse_line_timed [OF n2 t2, where acc = "([], [])", THEN conjunct1] l2 by blast
  from a b show ?thesis by simp
qed

text \<open>
  Claim C7 as stated fails: a line that does not begin with a timestamp, and is no
  metadata tag, yields a timed line.
\<close>

theorem parse_line_timed_counterexample:
  "tag_match (strip (ascii ''x[00:12.34]Hello'')) = None
   \<and> time_match_at (strip (ascii ''x[00:12.34]Hello'')) = None
   \<and> parse_line (ascii ''x[00:12.34]Hello'') ([], []) =
       Inr ([\<lparr>time = \<lparr>tdelta = 12340000\<rparr>, texts = ascii ''Hello''\<rparr>], [])"
  by (simp add: line_eval)

subsection \<open>Enhanced lines\<close>

lemma segment_text_tuple: "segment_text (m, s, f, p) = stamp m s f @ p"
  by (simp add: segment_text_def)

lemma concat_segments_head:
  "concat (map segment_text gs) = [] \<or> hd (concat (map segment_text gs)) = 91"
proof (cases gs)
  case Nil
  then show ?thesis by simp
next
  case (Cons g gs')
  obtain m s f p where "g = (m, s, f, p)" by (cases g)
  with Cons show ?thesis by (simp add: segment_text_def stamp_def)
qed

lemma takeWhile_payload:
  assumes "list_all not_bracket p" "r = [] \<or> hd r = 91"
  shows "takeWhile not_bracket (p @ r) = p" and "dropWhile not_bracket (p @ r) = r"
proof -
  have r: "takeWhile not_bracket r = []" "dropWhile not_bracket r = r"
    using assms(2) by (cases r; simp add: not_bracket_def)+
  from assms(1) have a: "\<forall>x\<in>set p. not_bracket x" by (simp add: list_all_iff)
  show "takeWhile not_bracket (p @ r) = p" using a r by (simp add: takeWhile_append2)
  show "dropWhile not_bracket (p @ r) = r" using a r by (simp add: dropWhile_append2)
qed

lemma findall_time_segments:
  assumes "list_all segment_ok gs"
  shows "findall_time (concat (map segment_text gs)) = gs"
  using assms
proof (induction gs)
  case Nil
  show ?case by (subst findall_time.simps) (simp add: time_match_at_def)
next
  case (Cons g gs)
  obtain m s f p where g: "g = (m, s, f, p)" by (cases g)
  let ?r = "concat (map segment_text gs)"
  from Cons.prems have okg: "segment_ok (m, s, f, p)" and gs: "list_all segment_ok gs"
    by (simp_all add: g)
  from okg have wf: "timestamp_fields m s f" and p: "list_all not_bracket p"
    by (simp_all add: segment_ok_def)
  have tm: "time_match_at (stamp m s f @ (p @ ?r)) = Some (m, s, f, p @ ?r)"
    using wf by (rule time_match_at_stamp)
  note tw = takeWhile_payload [OF p concat_segments_head [of gs]]
  have "findall_time (stamp m s f @ (p @ ?r)) = (m, s, f, p) # findall_time ?r"
    by (subst findall_time.simps) (simp add: tm tw)
  with Cons.IH [OF gs] show ?case by (simp add: g segment_text_tuple)
qed

lemma standard_parse_segment:
  assumes "segment_ok (m, s, f, p)"
  shows "standard_parse m s f p = Inr (segment_char (m, s, f, p))"
proof -
  from assms have wf: "timestamp_fields m s f" and sec: "str_value s \<le> 59"
    by (simp_all add: segment_ok_def)
  have ne: "f \<noteq> []" using wf by (auto simp: timestamp_fields_def)
  have lf: "list_all isdecimal (ljust f 3 48)" "length (ljust f 3 48) = 3"
    using wf by (auto simp: timestamp_fields_def ljust_def isdecimal_ascii list_all_iff)
  have d: "decimal_string m" "decimal_string s" "decimal_string f"
    using wf ne by (auto simp: timestamp_fields_def decimal_string_def int_max_str_digits_def)
  have "str_value m < 10 ^ length m" using wf
    by (intro str_value_bound) (simp add: timestamp_fields_def)
  then have bm: "str_value m < 100" using wf by (simp add: timestamp_fields_def)
  have "str_value (ljust f 3 48) < 10 ^ length (ljust f 3 48)" using lf(1) by (rule str_value_bound)
  then have bf: "str_value (ljust f 3 48) < 1000" by (simp only: lf(2)) simp
  have "LRCTime_init m s f = Inr \<lparr>tdelta = str_value m * 60000000 + str_value s * 1000000
                             + str_value (ljust f 3 48) * 1000\<rparr>"
    using d sec bm bf by (simp add: LRCTime_init_cases not_le)
  then show ?thesis by (simp add: standard_parse_def segment_char_def)
qed

lemma from_string_segments:
  assumes "list_all segment_ok gs"
  shows "from_string (concat (map segment_text gs)) =
           Inr \<lparr>characters = map segment_char gs, end_time_override = None\<rparr>"
proof -
  have "map_err (\<lambda>(m, s, f, p). standard_parse m s f p) gs = Inr (map segment_char gs)"
  proof (rule map_err_total)
    fix g assume "g \<in> set gs"
    with assms have ok: "segment_ok g" by (simp add: list_all_iff)
    obtain m s f p where g: "g = (m, s, f, p)" by (cases g)
    from ok show "(case g of (m, s, f, p) \<Rightarrow> standard_parse m s f p) = Inr (segment_char g)"
      by (simp add: g standard_parse_segment)
  qed
  then show ?thesis
    by (simp add: from_string_def findall_time_segments [OF assms] EnhancedLyricLine_init_def)
qed

lemma from_string_matches:
  assumes "from_string s = Inr l"
  shows "map character (characters l) = map (\<lambda>(m, sec, f, p). p) (findall_time s)"
proof -
  have "map_err (\<lambda>(m, sec, f, p). standard_parse m sec f p) gs = Inr cs \<Longrightarrow>
        map character cs = map (\<lambda>(m, sec, f, p). p) gs" for gs cs
  proof (induction gs arbitrary: cs)
    case Nil
    then show ?case by simp
  next
    case (Cons g gs)
    obtain m sec f p where g: "g = (m, sec, f, p)" by (cases g)
    from Cons.prems obtain c cs' where c: "standard_parse m sec f p = Inr c"
      and r: "map_err (\<lambda>(m, sec, f, p). standard_parse m sec f p) gs = Inr cs'"
      and cs: "cs = c # cs'"
      by (auto simp: g split: sum.splits)
    from c have "character c = p" by (auto simp: standard_parse_def split: sum.splits)
    with Cons.IH [OF r] show ?case by (simp add: cs g)
  qed
  with assms show ?thesis
    by (auto simp: from_string_def EnhancedLyricLine_init_def split: sum.splits)
qed

lemma not_isdecimal_open: "\<not> isdecimal 91"
  by (simp add: isdecimal_def decimal_value_def decimal_zeros_def)

lemma time_match_at_append:
  assumes "time_match_at s = Some (m, sec, f, rest)"
  shows "time_match_at (s @ r) = Some (m, sec, f, rest @ r)"
proof -
  from time_match_at_Some [OF assms]
  have wf: "timestamp_fields m sec f" and s: "s = stamp m sec f @ rest" by simp_all
  show ?thesis unfolding s using time_match_at_stamp [OF wf, of "rest @ r"] by simp
qed

lemma stamp_Cons:
  assumes "timestamp_fields m s f"
  shows "\<exists>b. stamp m s f = 91 # b \<and> 91 \<notin> set b"
proof -
  have "91 \<notin> set m" "91 \<notin> set s" "91 \<notin> set f"
    using assms not_isdecimal_open by (auto simp: timestamp_fields_def list_all_iff)
  then show ?thesis by (simp add: stamp_def)
qed

lemma time_match_at_gap:
  assumes "time_match_at (c # j) = None" "r = [] \<or> hd r = 91"
  shows "time_match_at ((c # j) @ r) = None"
proof (rule ccontr)
  assume "time_match_at ((c # j) @ r) \<noteq> None"
  then obtain m s f rest where tm: "time_match_at ((c # j) @ r) = Some (m, s, f, rest)" by auto
  from time_match_at_Some [OF tm]
  have wf: "timestamp_fields m s f" and e: "(c # j) @ r = stamp m s f @ rest" by simp_all
  from stamp_Cons [OF wf] obtain b where b: "stamp m s f = 91 # b" "91 \<notin> set b" by blast
  from e b have c: "c = 91" and jr: "j @ r = b @ rest" by simp_all
  from jr obtain us where "(j = b @ us \<and> us @ r = rest) \<or> (j @ us = b \<and> r = us @ rest)"
    by (auto simp: append_eq_append_conv2)
  then show False
  proof
    assume "j = b @ us \<and> us @ r = rest"
    then have "c # j = stamp m s f @ us" using c b by simp
    with time_match_at_stamp [OF wf, of us] assms(1) show False by simp
  next
    assume h: "j @ us = b \<and> r = us @ rest"
    show False
    proof (cases us)
      case Nil
      with h have "c # j = stamp m s f @ []" using c b by simp
      with time_match_at_stamp [OF wf, of "[]"] assms(1) show False by simp
    next
      case (Cons u us')
      with h have "hd r = u" "r \<noteq> []" by simp_all
      with assms(2) have "u = 91" by simp
      moreover from h Cons have "u \<in> set b" by auto
      ultimately show False using b(2) by simp
    qed
  qed
qed

lemma findall_time_Nil: "findall_time [] = []"
  by (subst findall_time.simps) (simp add: time_match_at_def)

lemma findall_time_gap:
  assumes "gap_ok j" "r = [] \<or> hd r = 91"
  shows "findall_time (j @ r) = findall_time r"
  using assms(1)
proof (induction j)
  case Nil
  show ?case by simp
next
  case (Cons c j)
  then have n: "time_match_at (c # j) = None" and g: "gap_ok j" by simp_all
  have "time_match_at ((c # j) @ r) = None" using n assms(2) by (rule time_match_at_gap)
  then have "findall_time ((c # j) @ r) = findall_time (j @ r)"
    by (subst findall_time.simps) simp
  with Cons.IH [OF g] show ?case by simp
qed

lemma gap_ok_iff:
  "gap_ok j \<longleftrightarrow> \<not> (\<exists>pre m s f post. timestamp_fields m s f \<and> j = pre @ stamp m s f @ post)"
proof (induction j)
  case Nil
  show ?case by (simp add: stamp_def)
next
  case (Cons c j)
  note IH = Cons.IH
  show ?case
  proof
    assume g: "gap_ok (c # j)"
    show "\<not> (\<exists>pre m s f post. timestamp_fields m s f \<and> c # j = pre @ stamp m s f @ post)"
    proof
      assume "\<exists>pre m s f post. timestamp_fields m s f \<and> c # j = pre @ stamp m s f @ post"
      then obtain pre m s f post where wf: "timestamp_fields m s f"
        and e: "c # j = pre @ stamp m s f @ post" by blast
      show False
      proof (cases pre)
        case Nil
        from g have "time_match_at (c # j) = None" by simp
        with e Nil time_match_at_stamp [OF wf, of post] show False by simp
      next
        case (Cons c' pre')
        with e have "j = pre' @ stamp m s f @ post" by simp
        with wf have "\<exists>pre m s f post. timestamp_fields m s f \<and> j = pre @ stamp m s f @ post"
          by blast
        moreover from g have "gap_ok j" by simp
        ultimately show False using IH by blast
      qed
    qed
  next
    assume n: "\<not> (\<exists>pre m s f post. timestamp_fields m s f \<and> c # j = pre @ stamp m s f @ post)"
    have "time_match_at (c # j) = None"
    proof (rule ccontr)
      assume "time_match_at (c # j) \<noteq> None"
      then obtain m s f rest where "time_match_at (c # j) = Some (m, s, f, rest)" by auto
      from time_match_at_Some [OF this] have "timestamp_fields m s f \<and> c # j = [] @ stamp m s f @ rest"
        by simp
      with n show False by blast
    qed
    moreover have "gap_ok j"
    proof -
      have "\<not> (\<exists>pre m s f post. timestamp_fields m s f \<and> j = pre @ stamp m s f @ post)"
      proof
        assume "\<exists>pre m s f post. timestamp_fields m s f \<and> j = pre @ stamp m s f @ post"
        then obtain pre m s f post where "timestamp_fields m s f" "j = pre @ stamp m s f @ post"
          by blast
        then have "timestamp_fields m s f \<and> c # j = (c # pre) @ stamp m s f @ post" by simp
        with n show False by blast
      qed
      with IH show ?thesis by simp
    qed
    ultimately show "gap_ok (c # j)" by simp
  qed
qed

lemma segment_text_head: "hd (segment_text g @ r) = 91"
  by (cases g) (simp add: segment_text_def stamp_def)

lemma enh_render_after_payload:
  assumes "enh_ok False items tail"
  shows "after_payload (enh_render items tail)"
proof (cases items)
  case Nil
  with assms show ?thesis by simp
next
  case (Cons it its)
  obtain j g where it: "it = (j, g)" by (cases it)
  from assms have aj: "after_payload j" by (simp add: Cons it)
  show ?thesis
  proof (cases j)
    case Nil
    then show ?thesis using segment_text_head [of g "enh_render its tail"]
      by (simp add: Cons it after_payload_def)
  next
    case (Cons c cs)
    with aj show ?thesis by (simp add: \<open>items = it # its\<close> it after_payload_def)
  qed
qed

lemma takeWhile_after_payload:
  assumes "list_all not_bracket p" "after_payload r"
  shows "takeWhile not_bracket (p @ r) = p" and "dropWhile not_bracket (p @ r) = r"
proof -
  have r: "takeWhile not_bracket r = []" "dropWhile not_bracket r = r"
    using assms(2) by (cases r; auto simp: not_bracket_def after_payload_def)+
  from assms(1) have a: "\<forall>x\<in>set p. not_bracket x" by (simp add: list_all_iff)
  show "takeWhile not_bracket (p @ r) = p" using a r by (simp add: takeWhile_append2)
  show "dropWhile not_bracket (p @ r) = r" using a r by (simp add: dropWhile_append2)
qed

lemma findall_time_render:
  assumes "enh_ok b items tail"
  shows "findall_time (enh_render items tail) = map snd items"
  using assms
proof (induction items arbitrary: b)
  case Nil
  then have "gap_ok tail" by simp
  from findall_time_gap [OF this, of "[]"] show ?case by (simp add: findall_time_Nil)
next
  case (Cons it items)
  obtain j m s f p where it: "it = (j, m, s, f, p)" by (cases it)
  let ?R = "enh_render items tail"
  from Cons.prems have gj: "gap_ok j" and sh: "seg_shape (m, s, f, p)"
    and ok: "enh_ok False items tail" by (simp_all add: it)
  from sh have wf: "timestamp_fields m s f" and p: "list_all not_bracket p"
    by (simp_all add: seg_shape_def)
  have ap: "after_payload ?R" using ok by (rule enh_render_after_payload)
  have tm: "time_match_at (stamp m s f @ (p @ ?R)) = Some (m, s, f, p @ ?R)"
    using wf by (rule time_match_at_stamp)
  note tw = takeWhile_after_payload [OF p ap]
  have "findall_time (stamp m s f @ (p @ ?R)) = (m, s, f, p) # findall_time ?R"
    by (subst findall_time.simps) (simp add: tm tw)
  moreover have "findall_time (j @ (stamp m s f @ (p @ ?R))) = findall_time (stamp m s f @ (p @ ?R))"
    using gj by (rule findall_time_gap) (simp add: stamp_def)
  ultimately show ?case using Cons.IH [OF ok] by (simp add: it segment_text_tuple)
qed

lemma after_payload_dropWhile: "after_payload (dropWhile not_bracket r)"
proof (cases "dropWhile not_bracket r")
  case Nil
  then show ?thesis by (simp add: after_payload_def)
next
  case (Cons c cs)
  then have "\<not> not_bracket (hd (dropWhile not_bracket r))"
    using hd_dropWhile [of not_bracket r] by simp
  then show ?thesis by (simp add: after_payload_def not_bracket_def)
qed

lemma enh_render_exists:
  "first \<or> after_payload s \<Longrightarrow> \<exists>items tail. s = enh_render items tail \<and> enh_ok first items tail"
proof (induction s arbitrary: first rule: length_induct)
  case (1 s)
  show ?case
  proof (cases "time_match_at s")
    case None
    show ?thesis
    proof (cases s)
      case Nil
      have "s = enh_render [] [] \<and> enh_ok first [] []" by (simp add: Nil after_payload_def)
      then show ?thesis by blast
    next
      case (Cons c t)
      then have "length t < length s" by simp
      with "1.IH" have "\<exists>items tail. t = enh_render items tail \<and> enh_ok True items tail" by blast
      then obtain items tail where t: "t = enh_render items tail" and ok: "enh_ok True items tail"
        by blast
      from "1.prems" have ap: "first \<or> after_payload (c # u)" for u
        by (auto simp: Cons after_payload_def)
      show ?thesis
      proof (cases items)
        case Nil
        with t ok None Cons have "s = enh_render [] (c # tail) \<and> enh_ok first [] (c # tail)"
          using ap [of tail] by simp
        then show ?thesis by blast
      next
        case (Cons it its)
        obtain j g where it: "it = (j, g)" by (cases it)
        let ?R = "segment_text g @ enh_render its tail"
        have s: "s = (c # j) @ ?R" using t \<open>s = c # t\<close> by (simp add: Cons it)
        have "time_match_at (c # j) = None"
        proof (rule ccontr)
          assume "time_match_at (c # j) \<noteq> None"
          then obtain m sec f rest where "time_match_at (c # j) = Some (m, sec, f, rest)" by auto
          from time_match_at_append [OF this, of ?R] None s show False by simp
        qed
        with ok have "enh_ok first ((c # j, g) # its) tail"
          using ap [of j] by (simp add: Cons it)
        moreover have "s = enh_render ((c # j, g) # its) tail" using s by simp
        ultimately show ?thesis by blast
      qed
    qed
  next
    case (Some x)
    obtain m sec f rest where x: "x = (m, sec, f, rest)" by (cases x)
    from time_match_at_Some [OF Some [unfolded x]]
    have wf: "timestamp_fields m sec f" and s: "s = stamp m sec f @ rest" by simp_all
    let ?p = "takeWhile not_bracket rest"
    let ?r = "dropWhile not_bracket rest"
    have "length ?r \<le> length rest" by (rule length_dropWhile_le)
    then have "length ?r < length s" by (simp add: s stamp_def)
    moreover have "False \<or> after_payload ?r" by (simp add: after_payload_dropWhile)
    ultimately have "\<exists>items tail. ?r = enh_render items tail \<and> enh_ok False items tail"
      using "1.IH" by blast
    then obtain items tail where r: "?r = enh_render items tail" and ok: "enh_ok False items tail"
      by blast
    have "list_all not_bracket ?p" by (auto simp: list_all_iff dest: set_takeWhileD)
    with wf ok have "enh_ok first (([], m, sec, f, ?p) # items) tail"
      by (simp add: seg_shape_def after_payload_def)
    moreover have "s = enh_render (([], m, sec, f, ?p) # items) tail"
    proof -
      have "rest = ?p @ ?r" by simp
      then have "s = stamp m sec f @ ?p @ ?r" using s by simp
      then show ?thesis by (simp add: segment_text_tuple flip: r)
    qed
    ultimately show ?thesis by blast
  qed
qed

lemma standard_parse_shape:
  assumes "seg_shape (m, s, f, p)"
  shows "standard_parse m s f p =
           (if segment_ok (m, s, f, p) then Inr (segment_char (m, s, f, p)) else Inl ValueError)"
proof (cases "segment_ok (m, s, f, p)")
  case True
  then show ?thesis by (simp add: standard_parse_segment)
next
  case False
  with assms have "59 < str_value s" by (simp add: seg_shape_def segment_ok_def)
  then have "LRCTime_init m s f = Inl ValueError" by (simp add: LRCTime_init_cases)
  with False show ?thesis by (simp add: standard_parse_def)
qed

lemma map_err_shape:
  assumes "list_all seg_shape gs"
  shows "map_err (\<lambda>(m, s, f, p). standard_parse m s f p) gs =
           (if list_all segment_ok gs then Inr (map segment_char gs) else Inl ValueError)"
  using assms
proof (induction gs)
  case Nil
  show ?case by simp
next
  case (Cons g gs)
  obtain m s f p where g: "g = (m, s, f, p)" by (cases g)
  from Cons.prems have sh: "seg_shape (m, s, f, p)" and r: "list_all seg_shape gs"
    by (simp_all add: g)
  show ?case using Cons.IH [OF r] by (simp add: g standard_parse_shape [OF sh])
qed

lemma enh_ok_shapes: "enh_ok b items tail \<Longrightarrow> list_all seg_shape (map snd items)"
  by (induction items arbitrary: b) auto

lemma from_string_render:
  assumes "enh_ok b items tail"
  shows "from_string (enh_render items tail) =
           (if list_all segment_ok (map snd items)
            then Inr \<lparr>characters = map segment_char (map snd items), end_time_override = None\<rparr>
            else Inl ValueError)"
  using map_err_shape [OF enh_ok_shapes [OF assms]]
  by (simp add: from_string_def findall_time_render [OF assms] EnhancedLyricLine_init_def)


lemmas enh_eval = seg_shape_def segment_ok_def timestamp_fields_def not_bracket_def
  after_payload_def time_match_at_def segment_text_tuple segment_char_def stamp_def

text \<open>
  Claim C8. \<^verbatim>\<open>from_string\<close> on \<^verbatim>\<open>[00:19.845]\<close>, U+3064, \<^verbatim>\<open>[00:20.084]\<close>, U+307E gives a
  line whose start time has the millisecond component 845, whose end time has the
  millisecond component 84 and whose text is the two characters U+3064 U+307E.

  In general, every line is a sequence of items, each a gap followed by a segment, and a
  last gap: a gap is a text in which no timestamp begins, a segment is a timestamp
  followed by its payload, the text up to the next bracket or the end of the line. The
  matches of the pattern in such a line are exactly its segments, from left to right,
  whatever stands in the gaps, and \<^verbatim>\<open>from_string\<close> returns one \<^verbatim>\<open>TimedCharacter\<close> for every
  segment, in order, with the time of the segment and its payload as text; it raises
  \<^verbatim>\<open>ValueError\<close> when the seconds of a segment are above 59. So the text before the first
  timestamp and the text between a payload and the next timestamp are passed over:
  \<^verbatim>\<open>x[00:01.00]a\<close> gives one character and \<^verbatim>\<open>[00:01.00]a]junk[00:02.00]b\<close> gives two. In
  particular a line made of segments only gives one character for every segment; and
  whenever \<^verbatim>\<open>from_string\<close> returns, the payloads are the last groups of the matches from
  left to right.
\<close>

theorem from_string_characters:
  "(\<exists>l s e. from_string (ascii ''[00:19.845]'' @ [12388] @ ascii ''[00:20.084]'' @ [12414]) = Inr l
       \<and> start_time l = Some s \<and> milliseconds s = 845
       \<and> end_time l = Some e \<and> milliseconds e = 84
       \<and> line_text l = [12388, 12414])
   \<and> (\<exists>items tail. line = enh_render items tail \<and> enh_ok True items tail)
   \<and> (enh_ok True items tail \<longrightarrow>
        findall_time (enh_render items tail) = map snd items
        \<and> from_string (enh_render items tail) =
            (if list_all segment_ok (map snd items)
             then Inr \<lparr>characters = map segment_char (map snd items), end_time_override = None\<rparr>
             else Inl ValueError))
   \<and> from_string (ascii ''x[00:01.00]a'') =
        Inr \<lparr>characters = [\<lparr>ch_time = \<lparr>tdelta = 1000000\<rparr>, character = ascii ''a''\<rparr>],
             end_time_override = None\<rparr>
   \<and> from_string (ascii ''[00:01.00]a]junk[00:02.00]b'') =
        Inr \<lparr>characters = [\<lparr>ch_time = \<lparr>tdelta = 1000000\<rparr>, character = ascii ''a''\<rparr>,
                           \<lparr>ch_time = \<lparr>tdelta = 2000000\<rparr>, character = ascii ''b''\<rparr>],
             end_time_override = None\<rparr>
   \<and> (list_all segment_ok gs \<longrightarrow>
        from_string (concat (map segment_text gs)) =
          Inr \<lparr>characters = map segment_char gs, end_time_override = None\<rparr>)
   \<and> (from_string line = Inr r \<longrightarrow>
        map character (characters r) = map (\<lambda>(m, sec, f, p). p) (findall_time line))"
proof (intro conjI impI)
  let ?gs = "[(ascii ''00'', ascii ''19'', ascii ''845'', [12388]),
              (ascii ''00'', ascii ''20'', ascii ''084'', [12414])]"
  have ok: "list_all segment_ok ?gs"
    by (simp add: segment_ok_def timestamp_fields_def not_bracket_def str_eval)
  have t: "ascii ''[00:19.845]'' @ [12388] @ ascii ''[00:20.084]'' @ [12414]
             = concat (map segment_text ?gs)"
    by (simp add: segment_text_tuple stamp_def ascii_def)
  have "from_string (ascii ''[00:19.845]'' @ [12388] @ ascii ''[00:20.084]'' @ [12414]) =
          Inr \<lparr>characters = map segment_char ?gs, end_time_override = None\<rparr>"
    unfolding t using ok by (rule from_string_segments)
  moreover have "map segment_char ?gs =
      [\<lparr>ch_time = \<lparr>tdelta = 19845000\<rparr>, character = [12388]\<rparr>,
       \<lparr>ch_time = \<lparr>tdelta = 20084000\<rparr>, character = [12414]\<rparr>]"
    by (simp add: segment_char_def str_eval)
  ultimately have "from_string (ascii ''[00:19.845]'' @ [12388] @ ascii ''[00:20.084]'' @ [12414]) =
          Inr \<lparr>characters = [\<lparr>ch_time = \<lparr>tdelta = 19845000\<rparr>, character = [12388]\<rparr>,
       \<lparr>ch_time = \<lparr>tdelta = 20084000\<rparr>, character = [12414]\<rparr>], end_time_override = None\<rparr>"
    by simp
  then show "\<exists>l s e. from_string (ascii ''[00:19.845]'' @ [12388] @ ascii ''[00:20.084]'' @ [12414]) = Inr l
       \<and> start_time l = Some s \<and> milliseconds s = 845
       \<and> end_time l = Some e \<and> milliseconds e = 84
       \<and> line_text l = [12388, 12414]"
    by (simp add: start_time_def end_time_def line_text_def milliseconds_def
        total_milliseconds_eval)
next
  show "\<exists>items tail. line = enh_render items tail \<and> enh_ok True items tail"
    by (rule enh_render_exists) simp
next
  assume "enh_ok True items tail"
  then show "findall_time (enh_render items tail) = map snd items"
    by (rule findall_time_render)
next
  assume "enh_ok True items tail"
  then show "from_string (enh_render items tail) =
            (if list_all segment_ok (map snd items)
             then Inr \<lparr>characters = map segment_char (map snd items), end_time_override = None\<rparr>
             else Inl ValueError)"
    by (rule from_string_render)
next
  let ?items = "[(ascii ''x'', ascii ''00'', ascii ''01'', ascii ''00'', ascii ''a'')]"
  have ok: "enh_ok True ?items []" by (simp add: enh_eval str_eval)
  have sok: "list_all segment_ok (map snd ?items)" by (simp add: enh_eval str_eval)
  have t: "ascii ''x[00:01.00]a'' = enh_render ?items []" by (simp add: enh_eval ascii_def)
  have sc: "map segment_char (map snd ?items) =
      [\<lparr>ch_time = \<lparr>tdelta = 1000000\<rparr>, character = ascii ''a''\<rparr>]"
    by (simp add: enh_eval str_eval)
  from from_string_render [OF ok] sok
  have "from_string (enh_render ?items []) =
          Inr \<lparr>characters = map segment_char (map snd ?items), end_time_override = None\<rparr>"
    by (simp only: if_True)
  then show "from_string (ascii ''x[00:01.00]a'') =
        Inr \<lparr>characters = [\<lparr>ch_time = \<lparr>tdelta = 1000000\<rparr>, character = ascii ''a''\<rparr>],
             end_time_override = None\<rparr>"
    by (simp only: t [symmetric] sc)
next
  let ?items = "[([], ascii ''00'', ascii ''01'', ascii ''00'', ascii ''a''),
                 (ascii '']junk'', ascii ''00'', ascii ''02'', ascii ''00'', ascii ''b'')]"
  have ok: "enh_ok True ?items []" by (simp add: enh_eval str_eval)
  have sok: "list_all segment_ok (map snd ?items)" by (simp add: enh_eval str_eval)
  have t: "ascii ''[00:01.00]a]junk[00:02.00]b'' = enh_render ?items []"
    by (simp add: enh_eval ascii_def)
  have sc: "map segment_char (map snd ?items) =
      [\<lparr>ch_time = \<lparr>tdelta = 1000000\<rparr>, character = ascii ''a''\<rparr>,
       \<lparr>ch_time = \<lparr>tdelta = 2000000\<rparr>, character = ascii ''b''\<rparr>]"
    by (simp add: enh_eval str_eval)
  from from_string_render [OF ok] sok
  have "from_string (enh_render ?items []) =
          Inr \<lparr>characters = map segment_char (map snd ?items), end_time_override = None\<rparr>"
    by (simp only: if_True)
  then show "from_string (ascii ''[00:01.00]a]junk[00:02.00]b'') =
        Inr \<lparr>characters = [\<lparr>ch_time = \<lparr>tdelta = 1000000\<rparr>, character = ascii ''a''\<rparr>,
                           \<lparr>ch_time = \<lparr>tdelta = 2000000\<rparr>, character = ascii ''b''\<rparr>],
             end_time_override = None\<rparr>"
    by (simp only: t [symmetric] sc)
next
  assume "list_all segment_ok gs"
  then show "from_string (concat (map segment_text gs)) =
          Inr \<lparr>characters = map segment_char gs, end_time_override = None\<rparr>"
    by (rule from_string_segments)
next
  assume "from_string line = Inr r"
  then show "map character (characters r) = map (\<lambda>(m, sec, f, p). p) (findall_time line)"
    by (rule from_string_matches)
qed


theorem from_string_characters_witness:
  "enh_ok True [(ascii ''x'', ascii ''01'', ascii ''02'', ascii ''5'', ascii ''ab cd''),
                (ascii '']y'', ascii ''01'', ascii ''03'', ascii ''25'', []),
                ([], ascii ''01'', ascii ''04'', ascii ''125'', ascii ''e'')] (ascii ''[0a:00.0]z'')
   \<and> enh_render [(ascii ''x'', ascii ''01'', ascii ''02'', ascii ''5'', ascii ''ab cd''),
                  (ascii '']y'', ascii ''01'', ascii ''03'', ascii ''25'', []),
                  ([], ascii ''01'', ascii ''04'', ascii ''125'', ascii ''e'')] (ascii ''[0a:00.0]z'')
       = ascii ''x[01:02.5]ab cd]y[01:03.25][01:04.125]e[0a:00.0]z''
   \<and> findall_time (ascii ''x[01:02.5]ab cd]y[01:03.25][01:04.125]e[0a:00.0]z'') =
       [(ascii ''01'', ascii ''02'', ascii ''5'', ascii ''ab cd''),
        (ascii ''01'', ascii ''03'', ascii ''25'', []),
        (ascii ''01'', ascii ''04'', ascii ''125'', ascii ''e'')]
   \<and> from_string (ascii ''x[01:02.5]ab cd]y[01:03.25][01:04.125]e[0a:00.0]z'') =
       Inr \<lparr>characters = [\<lparr>ch_time = \<lparr>tdelta = 62500000\<rparr>, character = ascii ''ab cd''\<rparr>,
                          \<lparr>ch_time = \<lparr>tdelta = 63250000\<rparr>, character = []\<rparr>,
                          \<lparr>ch_time = \<lparr>tdelta = 64125000\<rparr>, character = ascii ''e''\<rparr>],
            end_time_override = None\<rparr>
   \<and> map (\<lambda>(m, sec, f, p). p)
         (findall_time (ascii ''x[01:02.5]ab cd]y[01:03.25][01:04.125]e[0a:00.0]z''))
       = map character [\<lparr>ch_time = \<lparr>tdelta = 62500000\<rparr>, character = ascii ''ab cd''\<rparr>,
                        \<lparr>ch_time = \<lparr>tdelta = 63250000\<rparr>, character = []\<rparr>,
                        \<lparr>ch_time = \<lparr>tdelta = 64125000\<rparr>, character = ascii ''e''\<rparr>]
   \<and> enh_ok True [(ascii ''ab'', ascii ''00'', ascii ''75'', ascii ''00'', ascii ''x'')] []
   \<and> from_string (ascii ''ab[00:75.00]x'') = Inl ValueError
   \<and> list_all segment_ok [(ascii ''01'', ascii ''02'', ascii ''5'', ascii ''ab cd''),
                           (ascii ''01'', ascii ''03'', ascii ''25'', []),
                           (ascii ''01'', ascii ''04'', ascii ''125'', ascii ''e'')]
   \<and> from_string (ascii ''[01:02.5]ab cd[01:03.25][01:04.125]e'') =
       Inr \<lparr>characters = [\<lparr>ch_time = \<lparr>tdelta = 62500000\<rparr>, character = ascii ''ab cd''\<rparr>,
                          \<lparr>ch_time = \<lparr>tdelta = 63250000\<rparr>, character = []\<rparr>,
                          \<lparr>ch_time = \<lparr>tdelta = 64125000\<rparr>, character = ascii ''e''\<rparr>],
            end_time_override = None\<rparr>"
proof -
  let ?gs = "[(ascii ''01'', ascii ''02'', ascii ''5'', ascii ''ab cd''),
              (ascii ''01'', ascii ''03'', ascii ''25'', []),
              (ascii ''01'', ascii ''04'', ascii ''125'', ascii ''e'')]"
  let ?items = "[(ascii ''x'', ascii ''01'', ascii ''02'', ascii ''5'', ascii ''ab cd''),
                 (ascii '']y'', ascii ''01'', ascii ''03'', ascii ''25'', []),
                 ([], ascii ''01'', ascii ''04'', ascii ''125'', ascii ''e'')]"
  let ?tail = "ascii ''[0a:00.0]z''"
  let ?line = "ascii ''x[01:02.5]ab cd]y[01:03.25][01:04.125]e[0a:00.0]z''"
  let ?cs = "[\<lparr>ch_time = \<lparr>tdelta = 62500000\<rparr>, character = ascii ''ab cd''\<rparr>,
              \<lparr>ch_time = \<lparr>tdelta = 63250000\<rparr>, character = []\<rparr>,
              \<lparr>ch_time = \<lparr>tdelta = 64125000\<rparr>, character = ascii ''e''\<rparr>]"
  let ?r = "\<lparr>characters = ?cs, end_time_override = None\<rparr>"
  let ?bad = "[(ascii ''ab'', ascii ''00'', ascii ''75'', ascii ''00'', ascii ''x'')]"
  note th = from_string_characters [where items = ?items and tail = ?tail and line = ?line
      and gs = ?gs and r = ?r]
  note th' = from_string_characters [where items = ?bad and tail = "[]"]
  have ok: "enh_ok True ?items ?tail"
    by (simp add: enh_eval str_eval decimal_value_def decimal_zeros_def)
  have t: "enh_render ?items ?tail = ?line" by (simp add: enh_eval ascii_def)
  have ms: "map snd ?items = ?gs" by simp
  have sok: "list_all segment_ok ?gs" by (simp add: enh_eval str_eval)
  have sc: "map segment_char ?gs = ?cs" by (simp add: enh_eval str_eval)
  from th ok have "findall_time (enh_render ?items ?tail) = map snd ?items" by blast
  then have fa: "findall_time ?line = ?gs" by (simp only: t ms)
  from th ok have "from_string (enh_render ?items ?tail) =
            (if list_all segment_ok (map snd ?items)
             then Inr \<lparr>characters = map segment_char (map snd ?items), end_time_override = None\<rparr>
             else Inl ValueError)" by blast
  then have fs: "from_string ?line = Inr ?r" using sok by (simp only: t ms sc if_True)
  from th fs have pl: "map character (characters ?r) = map (\<lambda>(m, sec, f, p). p) (findall_time ?line)"
    by blast
  then have pl': "map (\<lambda>(m, sec, f, p). p) (findall_time ?line) = map character ?cs"
    by simp
  have okb: "enh_ok True ?bad []" by (simp add: enh_eval str_eval)
  have tb: "enh_render ?bad [] = ascii ''ab[00:75.00]x''" by (simp add: enh_eval ascii_def)
  have nb: "\<not> list_all segment_ok (map snd ?bad)" by (simp add: enh_eval str_eval)
  from th' okb have "from_string (enh_render ?bad []) =
            (if list_all segment_ok (map snd ?bad)
             then Inr \<lparr>characters = map segment_char (map snd ?bad), end_time_override = None\<rparr>
             else Inl ValueError)" by blast
  then have fb: "from_string (ascii ''ab[00:75.00]x'') = Inl ValueError"
    using nb by (simp only: tb if_False)
  have tg: "ascii ''[01:02.5]ab cd[01:03.25][01:04.125]e'' = concat (map segment_text ?gs)"
    by (simp add: enh_eval ascii_def)
  from th sok have "from_string (concat (map segment_text ?gs)) =
          Inr \<lparr>characters = map segment_char ?gs, end_time_override = None\<rparr>"
    by blast
  then have fg: "from_string (ascii ''[01:02.5]ab cd[01:03.25][01:04.125]e'') = Inr ?r"
    by (simp only: tg [symmetric] sc)
  from ok t fa fs pl' okb fb sok fg show ?thesis by (intro conjI)
qed

lemma set_insort_lt: "set (insort_lt lt x ys) = insert x (set ys)"
  by (induction ys) auto

lemma set_list_sort: "set (list_sort lt xs) = set xs"
  by (induction xs) (simp_all add: list_sort_def set_insort_lt)

lemma list_sort_Cons: "list_sort lt (x # xs) = insort_lt lt x (list_sort lt xs)"
  by (simp add: list_sort_def)

lemma insort_lt_append_stop:
  assumes "\<forall>e\<in>set es. \<not> lt e x"
  shows "insort_lt lt x (ss @ es) = insort_lt lt x ss @ es"
proof (induction ss)
  case Nil
  show ?case using assms by (cases es) auto
next
  case (Cons s ss)
  then show ?case by simp
qed

lemma insort_lt_pass:
  assumes "\<forall>s\<in>set ss. lt s x"
  shows "insort_lt lt x ss = ss @ [x]"
  using assms by (induction ss) auto

lemma EnhancedLyricLine_lt_empty_left: "characters a = [] \<Longrightarrow> \<not> EnhancedLyricLine_lt a b"
  by (simp add: EnhancedLyricLine_lt_def start_time_def)

lemma EnhancedLyricLine_lt_empty_right:
  "characters a \<noteq> [] \<Longrightarrow> characters b = [] \<Longrightarrow> EnhancedLyricLine_lt a b"
  by (cases "characters a") (simp_all add: EnhancedLyricLine_lt_def start_time_def)

lemma enhanced_sort_split:
  "list_sort EnhancedLyricLine_lt xs =
     list_sort EnhancedLyricLine_lt (filter (\<lambda>a. characters a \<noteq> []) xs)
       @ filter (\<lambda>a. characters a = []) xs"
proof (induction xs)
  case Nil
  show ?case by (simp add: list_sort_def)
next
  case (Cons x xs)
  let ?S = "list_sort EnhancedLyricLine_lt (filter (\<lambda>a. characters a \<noteq> []) xs)"
  let ?E = "filter (\<lambda>a. characters a = []) xs"
  have ih: "list_sort EnhancedLyricLine_lt xs = ?S @ ?E" by (rule Cons.IH)
  have E: "\<forall>e\<in>set ?E. \<not> EnhancedLyricLine_lt e x"
    by (simp add: EnhancedLyricLine_lt_empty_left)
  have step: "list_sort EnhancedLyricLine_lt (x # xs) = insort_lt EnhancedLyricLine_lt x ?S @ ?E"
    using insort_lt_append_stop [of ?E EnhancedLyricLine_lt x ?S, OF E]
    by (simp add: list_sort_Cons ih)
  show ?case
  proof (cases "characters x = []")
    case True
    have "\<forall>s\<in>set ?S. EnhancedLyricLine_lt s x"
      using True by (auto simp: set_list_sort intro: EnhancedLyricLine_lt_empty_right)
    then have "insort_lt EnhancedLyricLine_lt x ?S = ?S @ [x]" by (rule insort_lt_pass)
    with step True show ?thesis by simp
  next
    case False
    with step show ?thesis by (simp add: list_sort_Cons)
  qed
qed

text \<open>
  Claim C10. An enhanced line without characters has no start time and is never less
  than another line; a line with a character is less than every line without; two lines
  without characters are equal. Sorting a list of enhanced lines therefore gives the
  sorted lines with characters followed by the lines without, all of them.
\<close>

theorem enhanced_line_order:
  "(characters a = [] \<longrightarrow> start_time a = None \<and> \<not> EnhancedLyricLine_lt a b)
   \<and> (characters a \<noteq> [] \<and> characters b = [] \<longrightarrow> EnhancedLyricLine_lt a b)
   \<and> (characters a = [] \<and> characters b = [] \<longrightarrow> EnhancedLyricLine_eq a b)
   \<and> list_sort EnhancedLyricLine_lt xs =
       list_sort EnhancedLyricLine_lt (filter (\<lambda>l. characters l \<noteq> []) xs)
         @ filter (\<lambda>l. characters l = []) xs
   \<and> set (list_sort EnhancedLyricLine_lt (filter (\<lambda>l. characters l \<noteq> []) xs))
       = {l \<in> set xs. characters l \<noteq> []}"
proof (intro conjI impI)
  assume "characters a = []"
  then show "start_time a = None" by (simp add: start_time_def)
next
  assume "characters a = []"
  then show "\<not> EnhancedLyricLine_lt a b" by (rule EnhancedLyricLine_lt_empty_left)
next
  assume "characters a \<noteq> [] \<and> characters b = []"
  then show "EnhancedLyricLine_lt a b" by (simp add: EnhancedLyricLine_lt_empty_right)
next
  assume "characters a = [] \<and> characters b = []"
  then show "EnhancedLyricLine_eq a b" by (simp add: EnhancedLyricLine_eq_def start_time_def)
next
  show "list_sort EnhancedLyricLine_lt xs =
       list_sort EnhancedLyricLine_lt (filter (\<lambda>l. characters l \<noteq> []) xs)
         @ filter (\<lambda>l. characters l = []) xs"
    by (rule enhanced_sort_split)
next
  show "set (list_sort EnhancedLyricLine_lt (filter (\<lambda>l. characters l \<noteq> []) xs))
       = {l \<in> set xs. characters l \<noteq> []}"
    by (auto simp: set_list_sort)
qed

theorem enhanced_line_order_witness:
  "list_sort EnhancedLyricLine_lt
     [\<lparr>characters = [], end_time_override = None\<rparr>,
      \<lparr>characters = [\<lparr>ch_time = \<lparr>tdelta = 2000000\<rparr>, character = ascii ''b''\<rparr>],
       end_time_override = None\<rparr>,
      \<lparr>characters = [], end_time_override = Some \<lparr>tdelta = 5000000\<rparr>\<rparr>,
      \<lparr>characters = [\<lparr>ch_time = \<lparr>tdelta = 1000000\<rparr>, character = ascii ''a''\<rparr>],
       end_time_override = None\<rparr>]
   = [\<lparr>characters = [\<lparr>ch_time = \<lparr>tdelta = 1000000\<rparr>, character = ascii ''a''\<rparr>],
       end_time_override = None\<rparr>,
      \<lparr>characters = [\<lparr>ch_time = \<lparr>tdelta = 2000000\<rparr>, character = ascii ''b''\<rparr>],
       end_time_override = None\<rparr>,
      \<lparr>characters = [], end_time_override = None\<rparr>,
      \<lparr>characters = [], end_time_override = Some \<lparr>tdelta = 5000000\<rparr>\<rparr>]
   \<and> EnhancedLyricLine_lt
        \<lparr>characters = [\<lparr>ch_time = \<lparr>tdelta = 2000000\<rparr>, character = ascii ''b''\<rparr>],
         end_time_override = None\<rparr>
        \<lparr>characters = [], end_time_override = None\<rparr>
   \<and> \<not> EnhancedLyricLine_lt
        \<lparr>characters = [], end_time_override = None\<rparr>
        \<lparr>characters = [\<lparr>ch_time = \<lparr>tdelta = 2000000\<rparr>, character = ascii ''b''\<rparr>],
         end_time_override = None\<rparr>
   \<and> EnhancedLyricLine_eq
        \<lparr>characters = [], end_time_override = None\<rparr>
        \<lparr>characters = [], end_time_override = Some \<lparr>tdelta = 5000000\<rparr>\<rparr>"
proof -
  let ?e1 = "\<lparr>characters = [], end_time_override = None\<rparr>"
  let ?e2 = "\<lparr>characters = [], end_time_override = Some \<lparr>tdelta = 5000000\<rparr>\<rparr>"
  let ?a = "\<lparr>characters = [\<lparr>ch_time = \<lparr>tdelta = 1000000\<rparr>, character = ascii ''a''\<rparr>],
       end_time_override = None\<rparr>"
  let ?b = "\<lparr>characters = [\<lparr>ch_time = \<lparr>tdelta = 2000000\<rparr>, character = ascii ''b''\<rparr>],
       end_time_override = None\<rparr>"
  note s = enhanced_line_order [where xs = "[?e1, ?b, ?e2, ?a]", THEN conjunct2, THEN conjunct2,
      THEN conjunct2, THEN conjunct1]
  have ne: "list_sort EnhancedLyricLine_lt [?b, ?a] = [?a, ?b]"
    by (simp add: list_sort_def EnhancedLyricLine_lt_def start_time_def LRCTime_lt_def)
  from s ne have srt: "list_sort EnhancedLyricLine_lt [?e1, ?b, ?e2, ?a] = [?a, ?b, ?e1, ?e2]"
    by simp
  have l1: "EnhancedLyricLine_lt ?b ?e1"
    using enhanced_line_order [where a = ?b and b = ?e1] by simp
  have l2: "\<not> EnhancedLyricLine_lt ?e1 ?b"
    using enhanced_line_order [where a = ?e1 and b = ?b] by simp
  have l3: "EnhancedLyricLine_eq ?e1 ?e2"
    using enhanced_line_order [where a = ?e1 and b = ?e2] by simp
  from srt l1 l2 l3 show ?thesis by blast
qed

subsection \<open>Copies of the translations\<close>

lemma store_ok_in_use: "store_ok st \<Longrightarrow> objs st r = Some ob \<Longrightarrow> r < next_ref st"
  by (rule ccontr) (simp add: store_ok_def not_less)

lemma is_line_iff:
  "is_line st t \<longleftrightarrow>
     (\<exists>tx. objs st t = Some (LineObj None tx))
     \<or> (\<exists>a td tx. objs st t = Some (LineObj (Some a) tx) \<and> objs st a = Some (TimeObj td))"
proof (cases "objs st t")
  case None
  then show ?thesis by (simp add: is_line_def)
next
  case (Some ob)
  show ?thesis
  proof (cases ob)
    case (LineObj tr tx)
    show ?thesis
    proof (cases tr)
      case None
      with Some LineObj show ?thesis by (simp add: is_line_def)
    next
      case (Some a)
      show ?thesis
      proof (cases "objs st a")
        case None
        with \<open>objs st t = Some ob\<close> LineObj Some show ?thesis by (simp add: is_line_def)
      next
        case (Some oa)
        with \<open>objs st t = Some ob\<close> LineObj \<open>tr = Some a\<close> show ?thesis
          by (cases oa) (simp_all add: is_line_def)
      qed
    qed
  qed (use Some in \<open>simp_all add: is_line_def\<close>)
qed

lemma is_line_frame:
  assumes "store_ok st" "is_line st t" "\<forall>r<next_ref st. objs st' r = objs st r"
  shows "is_line st' t" and "line_texts st' t = line_texts st t"
proof -
  from assms(2) consider
      (plain) tx where "objs st t = Some (LineObj None tx)"
    | (timed) a td tx where "objs st t = Some (LineObj (Some a) tx)" "objs st a = Some (TimeObj td)"
    unfolding is_line_iff by blast
  then show "is_line st' t"
  proof cases
    case plain
    with assms(1,3) have "objs st' t = Some (LineObj None tx)"
      using store_ok_in_use by force
    then show ?thesis by (simp add: is_line_def)
  next
    case timed
    with assms(1,3) have "objs st' t = Some (LineObj (Some a) tx)" "objs st' a = Some (TimeObj td)"
      using store_ok_in_use by force+
    then show ?thesis by (simp add: is_line_def)
  qed
  from assms(2) obtain ob where "objs st t = Some ob"
    unfolding is_line_iff by blast
  with assms(1,3) have "objs st' t = objs st t" using store_ok_in_use by force
  then show "line_texts st' t = line_texts st t" by (simp add: line_texts_def)
qed

lemma deepcopy_line_props:
  assumes "store_ok st" "is_line st t"
  shows "\<exists>c st1 tr txt. deepcopy_line st t = Some (c, st1) \<and> store_ok st1
           \<and> next_ref st \<le> c \<and> c < next_ref st1
           \<and> (\<forall>r<next_ref st. objs st1 r = objs st r)
           \<and> line_texts st t = Some txt \<and> objs st1 c = Some (LineObj tr txt)"
proof -
  from assms(2) consider
      (plain) tx where "objs st t = Some (LineObj None tx)"
    | (timed) a td tx where "objs st t = Some (LineObj (Some a) tx)" "objs st a = Some (TimeObj td)"
    unfolding is_line_iff by blast
  then show ?thesis
  proof cases
    case plain
    then show ?thesis using assms(1)
      by (auto simp: deepcopy_line_def alloc_def store_ok_def line_texts_def)
  next
    case timed
    then show ?thesis using assms(1)
      by (auto simp: deepcopy_line_def alloc_def store_ok_def line_texts_def)
  qed
qed

lemma stamp_copies_frame:
  assumes "store_ok st" "\<forall>t\<in>set ts. is_line st t"
  shows "\<exists>cs st'. stamp_copies st tm ts = Some (cs, st') \<and> store_ok st'
           \<and> next_ref st \<le> next_ref st'
           \<and> (\<forall>r<next_ref st. objs st' r = objs st r)
           \<and> list_all2 (\<lambda>t c. stamped_copy st st' tm t c \<and> c < next_ref st') ts cs"
  using assms
proof (induction ts arbitrary: st)
  case Nil
  then show ?case by simp
next
  case (Cons t ts)
  from Cons.prems have lt: "is_line st t" and rest: "\<forall>u\<in>set ts. is_line st u" by simp_all
  from deepcopy_line_props [OF Cons.prems(1) lt]
  obtain c st1 tr tx where dc: "deepcopy_line st t = Some (c, st1)" and ok1: "store_ok st1"
    and c: "next_ref st \<le> c" "c < next_ref st1"
    and f1: "\<forall>r<next_ref st. objs st1 r = objs st r"
    and tx: "line_texts st t = Some tx" and oc: "objs st1 c = Some (LineObj tr tx)"
    by blast
  define st2 where "st2 = st1\<lparr>objs := (objs st1)(c \<mapsto> LineObj tm tx)\<rparr>"
  have sl: "set_line_time st1 c tm = Some st2"
    by (simp add: set_line_time_def oc st2_def)
  have ok2: "store_ok st2" using ok1 c(2) by (auto simp: store_ok_def st2_def)
  have n2: "next_ref st2 = next_ref st1" by (simp add: st2_def)
  have f2: "\<forall>r<next_ref st. objs st2 r = objs st r"
    using f1 c(1) by (auto simp: st2_def)
  have oc2: "objs st2 c = Some (LineObj tm tx)" by (simp add: st2_def)
  have rest2: "\<forall>u\<in>set ts. is_line st2 u"
    using rest is_line_frame(1) [OF Cons.prems(1) _ f2] by blast
  from Cons.IH [OF ok2 rest2]
  obtain cs st3 where sc: "stamp_copies st2 tm ts = Some (cs, st3)" and ok3: "store_ok st3"
    and n3: "next_ref st2 \<le> next_ref st3"
    and f3: "\<forall>r<next_ref st2. objs st3 r = objs st2 r"
    and l3: "list_all2 (\<lambda>t c. stamped_copy st2 st3 tm t c \<and> c < next_ref st3) ts cs"
    by blast
  have le12: "next_ref st \<le> next_ref st2" using c n2 by simp
  have res: "stamp_copies st tm (t # ts) = Some (c # cs, st3)"
    by (simp add: dc sl sc)
  have f: "\<forall>r<next_ref st. objs st3 r = objs st r"
    using f2 f3 le12 by auto
  have "objs st3 c = Some (LineObj tm tx)" using f3 c(2) n2 oc2 by simp
  then have hd: "stamped_copy st st3 tm t c \<and> c < next_ref st3"
    using c n2 n3 tx by (simp add: stamped_copy_def)
  have tl: "list_all2 (\<lambda>t c. stamped_copy st st3 tm t c \<and> c < next_ref st3) ts cs"
  proof (rule list.rel_mono_strong [OF l3])
    fix u d assume u: "u \<in> set ts" and h: "stamped_copy st2 st3 tm u d \<and> d < next_ref st3"
    from rest u have "is_line st u" by simp
    then have "line_texts st2 u = line_texts st u"
      by (rule is_line_frame(2) [OF Cons.prems(1) _ f2])
    with h le12 show "stamped_copy st st3 tm u d \<and> d < next_ref st3"
      by (auto simp: stamped_copy_def)
  qed
  from res ok3 f hd tl le12 n3 show ?case by simp
qed

text \<open>
  Claim C9. In a well-formed store, constructing a combined line from an origin and
  translation lines succeeds; every stored translation is a new object, with the text of
  the corresponding input and with the origin's time (for an enhanced origin, its start
  time, which is \<^verbatim>\<open>None\<close> when it has no character) as its \<^verbatim>\<open>time\<close>; and every object that
  was in the store before, the inputs and their \<^verbatim>\<open>LRCTime\<close> objects among them, is
  unchanged.
\<close>

theorem combined_line_copies:
  assumes "store_ok st" and "\<forall>t\<in>set ts. is_line st t"
  shows "(objs st orig = Some (LineObj tm tx) \<longrightarrow>
           (\<exists>c st'. CombinedLyricLine_init_store st orig ts = Some (c, st')
              \<and> time_ref c = tm
              \<and> list_all2 (stamped_copy st st' tm) ts (trans_refs c)
              \<and> (\<forall>r<next_ref st. objs st' r = objs st r)))
       \<and> (start_time_of st orig = Some tm \<and> end_time_of st orig = Some en \<longrightarrow>
           (\<exists>c st'. EnhancedCombinedLyricLine_init_store st orig ts = Some (c, st')
              \<and> start_time_ref c = tm
              \<and> list_all2 (stamped_copy st st' tm) ts (enh_trans_refs c)
              \<and> (\<forall>r<next_ref st. objs st' r = objs st r)))"
proof -
  from stamp_copies_frame [OF assms, of tm]
  obtain cs st' where sc: "stamp_copies st tm ts = Some (cs, st')"
    and f: "\<forall>r<next_ref st. objs st' r = objs st r"
    and l: "list_all2 (\<lambda>t c. stamped_copy st st' tm t c \<and> c < next_ref st') ts cs"
    by blast
  from l have l': "list_all2 (stamped_copy st st' tm) ts cs"
    by (rule list_all2_mono) simp
  show ?thesis
    using sc f l'
    by (auto simp: CombinedLyricLine_init_store_def EnhancedCombinedLyricLine_init_store_def)
qed


theorem combined_line_copies_witness:
  "store_ok example_store \<and> is_line example_store 3
   \<and> objs example_store 1 = Some (LineObj (Some 0) (ascii ''a''))
   \<and> start_time_of example_store 5 = Some (Some 0) \<and> end_time_of example_store 5 = Some (Some 0)
   \<and> (\<exists>c st'. CombinedLyricLine_init_store example_store 1 [3] = Some (c, st')
          \<and> time_ref c = Some 0
          \<and> list_all2 (stamped_copy example_store st' (Some 0)) [3] (trans_refs c)
          \<and> (\<forall>r<next_ref example_store. objs st' r = objs example_store r))
   \<and> (\<exists>c st'. EnhancedCombinedLyricLine_init_store example_store 5 [3] = Some (c, st')
          \<and> start_time_ref c = Some 0
          \<and> list_all2 (stamped_copy example_store st' (Some 0)) [3] (enh_trans_refs c)
          \<and> (\<forall>r<next_ref example_store. objs st' r = objs example_store r))"
proof -
  have ok: "store_ok example_store"
    by (auto simp: store_ok_def example_store_def)
  have ln: "\<forall>t\<in>set [3]. is_line example_store t"
    by (simp add: is_line_def example_store_def)
  have o: "objs example_store 1 = Some (LineObj (Some 0) (ascii ''a''))"
    by (simp add: example_store_def)
  have se: "start_time_of example_store 5 = Some (Some 0)"
    "end_time_of example_store 5 = Some (Some 0)"
    by (simp_all add: start_time_of_def end_time_of_def example_store_def)
  note th = combined_line_copies [OF ok ln, where orig = 1 and tm = "Some 0"
      and tx = "ascii ''a''"]
  note th' = combined_line_copies [OF ok ln, where orig = 5 and tm = "Some 0" and en = "Some 0"]
  have l3: "is_line example_store 3" using ln by simp
  from ok l3 o se th [THEN conjunct1, rule_format, OF o]
    th' [THEN conjunct2, rule_format, OF conjI [OF se]]
  show ?thesis by blast
qed

lemma example_copy:
  "CombinedLyricLine_init_store example_store 1 [3] =
     Some (\<lparr>origin_ref = 1, time_ref = Some 0, trans_refs = [7]\<rparr>,
           \<lparr>objs = (objs example_store)(6 \<mapsto> TimeObj 900000, 7 \<mapsto> LineObj (Some 0) (ascii ''x'')),
            next_ref = 8\<rparr>)"
  by (simp add: CombinedLyricLine_init_store_def deepcopy_line_def set_line_time_def alloc_def
      example_store_def)

end
